theory Spec2Isabelle
  imports Complex_Main "HOL-Library.Sublist" "HOL-Library.Log_Nat"
begin

section \<open>Title similarity analysis (similarity\_analyzer.py)\<close>

text \<open>
  A shallow embedding of the class \<open>SimilarityAnalyzer\<close>: text normalisation, character
  n-grams, Jaccard similarity, the pairwise matcher, exact-match clustering, the report
  and the \<open>analyze\<close> pipeline.

  Modelling decisions.
  \<^item> A Python \<open>str\<close> is a HOL \<open>string\<close>; a \<open>char\<close> is read as a code point below 256
    (Latin-1). On these code points \<open>str.lower\<close>, the regular expression class \<open>\s\<close>
    and \<open>str.split\<close> are as defined below.
  \<^item> A Python \<open>float\<close> is the rational number it denotes. True division and float
    multiplication round to the nearest double (ties to even, 53-bit significand); the
    exponent range is not bounded, so overflow, subnormals, infinities and NaN are not
    modelled.
  \<^item> A row of \<open>csv.DictReader\<close> is an association list from column name to cell; a cell
    is \<open>None\<close> where the row was shorter than the header.
  \<^item> Files are values: the file read is an argument, the files written are a result.
    Printing to the console is not modelled.
\<close>

subsection \<open>Characters\<close>

definition isspace :: "char \<Rightarrow> bool" where
  \<comment> \<open>\<open>str.isspace\<close> on one character, which is also the class \<open>\s\<close> of \<open>re\<close>.\<close>
  "isspace c \<longleftrightarrow> (of_char c :: nat) \<in> {9, 10, 11, 12, 13, 28, 29, 30, 31, 32, 133, 160}"

definition is_az :: "char \<Rightarrow> bool" where
  "is_az c \<longleftrightarrow> 97 \<le> (of_char c :: nat) \<and> (of_char c :: nat) \<le> 122"

definition is_digit :: "char \<Rightarrow> bool" where
  "is_digit c \<longleftrightarrow> 48 \<le> (of_char c :: nat) \<and> (of_char c :: nat) \<le> 57"

definition lower_char :: "char \<Rightarrow> char" where
  \<comment> \<open>\<open>str.lower\<close> on one character: A-Z, and the Latin-1 capitals except the
      multiplication sign.\<close>
  "lower_char c =
     (let k = (of_char c :: nat)
      in if (65 \<le> k \<and> k \<le> 90) \<or> (192 \<le> k \<and> k \<le> 222 \<and> k \<noteq> 215)
         then char_of (k + 32) else c)"

definition lower :: "string \<Rightarrow> string" where
  "lower text = map lower_char text"

subsection \<open>normalize\_text\<close>

definition url_at :: "string \<Rightarrow> bool" where
  \<comment> \<open>The pattern \<open>http[s]?://\S+\<close> matches at the start of the text.\<close>
  "url_at text \<longleftrightarrow>
     (\<exists>c \<in> set (take 1 (drop 7 text)). take 7 text = ''http://'' \<and> \<not> isspace c) \<or>
     (\<exists>c \<in> set (take 1 (drop 8 text)). take 8 text = ''https://'' \<and> \<not> isspace c)"

function remove_urls :: "string \<Rightarrow> string" where
  \<comment> \<open>\<open>re.sub(r'http[s]?://\S+', '', text)\<close>: scan from the left; a match takes the
      whole run of non-whitespace that follows, and the scan goes on after it.\<close>
  "remove_urls [] = []"
| "remove_urls (c # cs) =
     (if url_at (c # cs) then remove_urls (dropWhile (\<lambda>x. \<not> isspace x) cs)
      else c # remove_urls cs)"
  by pat_completeness auto
termination
  by (relation "measure length") (auto simp: le_imp_less_Suc length_dropWhile_le)

definition keep_char :: "char \<Rightarrow> char" where
  \<comment> \<open>One character of \<open>re.sub(r'[^a-z0-9\s]', ' ', text)\<close>.\<close>
  "keep_char c = (if is_az c \<or> is_digit c \<or> isspace c then c else CHR '' '')"

fun split_from :: "string \<Rightarrow> string \<Rightarrow> string list" where
  \<comment> \<open>\<open>str.split()\<close> with the word read so far: whitespace ends a word, and empty
      words are not kept.\<close>
  "split_from w [] = (if w = [] then [] else [w])"
| "split_from w (c # cs) =
     (if isspace c then (if w = [] then split_from [] cs else w # split_from [] cs)
      else split_from (w @ [c]) cs)"

definition split :: "string \<Rightarrow> string list" where
  "split text = split_from [] text"

fun join :: "string list \<Rightarrow> string" where
  \<comment> \<open>\<open>' '.join(words)\<close>\<close>
  "join [] = []"
| "join [w] = w"
| "join (w # v # ws) = w @ '' '' @ join (v # ws)"

definition normalize_text :: "string option \<Rightarrow> string" where
  \<comment> \<open>\<open>if not text\<close> holds for \<open>None\<close> and for the empty string.\<close>
  "normalize_text text =
     (case text of
        None \<Rightarrow> []
      | Some t \<Rightarrow>
          if t = [] then []
          else join (split (map keep_char (remove_urls (lower t)))))"

subsection \<open>Floating point\<close>

datatype error = ZeroDivisionError | IndexError

definition round_half_even :: "rat \<Rightarrow> int" where
  "round_half_even x =
     (let f = \<lfloor>x\<rfloor>; d = x - of_int f
      in if d < 1 / 2 then f else if 1 / 2 < d then f + 1 else if even f then f else f + 1)"

definition pow2 :: "int \<Rightarrow> rat" where
  "pow2 e = (if 0 \<le> e then 2 ^ nat e else 1 / 2 ^ nat (- e))"

definition double_exponent :: "rat \<Rightarrow> int" where
  \<comment> \<open>The scaling \<open>e\<close> that puts a non-zero \<open>x\<close> at 53 bits:
      \<open>2 ^ 52 \<le> \<bar>x\<bar> * 2 ^ e < 2 ^ 53\<close>.\<close>
  "double_exponent x =
     (let (a, b) = quotient_of \<bar>x\<bar>; d = bitlen b - bitlen a + 52
      in if \<bar>x\<bar> * pow2 d < 2 ^ 52 then d + 1 else d)"

definition to_double :: "rat \<Rightarrow> rat" where
  \<comment> \<open>The double nearest to \<open>x\<close>, ties to even.\<close>
  "to_double x =
     (if x = 0 then 0
      else let e = double_exponent x in of_int (round_half_even (x * pow2 e)) / pow2 e)"

definition true_div :: "int \<Rightarrow> int \<Rightarrow> error + rat" where
  \<comment> \<open>\<open>a / b\<close> on Python integers.\<close>
  "true_div a b = (if b = 0 then Inl ZeroDivisionError else Inr (to_double (of_int a / of_int b)))"

definition float_mul :: "rat \<Rightarrow> rat \<Rightarrow> rat" where
  "float_mul x y = to_double (x * y)"

definition round_ndigits :: "rat \<Rightarrow> nat \<Rightarrow> rat" where
  \<comment> \<open>\<open>round(x, ndigits)\<close> on a float: the decimal nearest to the double's value, as a
      double again.\<close>
  "round_ndigits x ndigits =
     to_double (of_int (round_half_even (x * 10 ^ ndigits)) / 10 ^ ndigits)"

definition digit_char :: "int \<Rightarrow> char" where
  "digit_char d = char_of (48 + d)"

function decimal :: "int \<Rightarrow> string" where
  \<comment> \<open>The decimal digits of a non-negative integer.\<close>
  "decimal n = (if n < 10 then [digit_char n] else decimal (n div 10) @ [digit_char (n mod 10)])"
  by pat_completeness auto
termination
  by (relation "measure nat") auto

definition format_2f :: "rat \<Rightarrow> string" where
  \<comment> \<open>\<open>f"{x:.2f}"\<close>: the value rounded to two decimals, ties to even.\<close>
  "format_2f x =
     (let k = round_half_even (\<bar>x\<bar> * 100)
      in (if x < 0 then ''-'' else []) @ decimal (k div 100) @ ''.'' @
         [digit_char (k div 10 mod 10), digit_char (k mod 10)])"

subsection \<open>generate\_ngrams and calculate\_jaccard\_similarity\<close>

definition slice :: "string \<Rightarrow> nat \<Rightarrow> nat \<Rightarrow> string" where
  \<comment> \<open>\<open>text[i:j]\<close> for \<open>0 \<le> i \<le> j\<close>\<close>
  "slice text i j = take (j - i) (drop i text)"

definition generate_ngrams :: "string option \<Rightarrow> nat \<Rightarrow> string set" where
  "generate_ngrams text n =
     (let t = normalize_text text
      in if length t < n then {t}
         else fold (\<lambda>i ngrams. insert (slice t i (i + n)) ngrams) [0 ..< length t - n + 1] {})"

definition calculate_jaccard_similarity :: "string set \<Rightarrow> string set \<Rightarrow> error + rat" where
  "calculate_jaccard_similarity set1 set2 =
     (if set1 = {} \<or> set2 = {} then Inr 0
      else let intersection = card (set1 \<inter> set2); union = card (set1 \<union> set2)
           in if union = 0 then Inr 0 else true_div (int intersection) (int union))"

subsection \<open>Articles and the analyzer\<close>

type_synonym article = "(string \<times> string option) list"

definition get :: "article \<Rightarrow> string \<Rightarrow> string \<Rightarrow> string option" where
  \<comment> \<open>\<open>article.get(key, dflt)\<close>\<close>
  "get article key dflt =
     (case map_of article key of None \<Rightarrow> Some dflt | Some v \<Rightarrow> v)"

record summary =
  title :: "string option"
  url :: "string option"
  date :: "string option"

record similar_pair =
  article1 :: summary
  article2 :: summary
  similarity :: rat

record analyzer =
  input_dir :: string
  similarity_threshold :: rat
  articles :: "article list"
  duplicates :: "similar_pair list"
  clusters :: "article list list"

definition init :: "string \<Rightarrow> rat \<Rightarrow> analyzer" where
  \<comment> \<open>\<open>__init__\<close>\<close>
  "init dir threshold =
     \<lparr>input_dir = dir, similarity_threshold = threshold, articles = [], duplicates = [],
      clusters = []\<rparr>"

definition load_articles :: "article list option \<Rightarrow> analyzer \<Rightarrow> bool \<times> analyzer" where
  \<comment> \<open>The first argument is \<open>articles.csv\<close> as \<open>csv.DictReader\<close> reads it: its rows in
      file order, or \<open>None\<close> when the file does not exist.\<close>
  "load_articles csv_file s =
     (case csv_file of None \<Rightarrow> (False, s) | Some reader \<Rightarrow> (True, s\<lparr>articles := reader\<rparr>))"

subsection \<open>find\_similar\_pairs\<close>

definition summarize :: "article \<Rightarrow> summary" where
  "summarize article =
     \<lparr>title = get article ''title'' [], url = get article ''url'' [],
      date = get article ''date_parsed'' []\<rparr>"

definition article_ngrams :: "article list \<Rightarrow> nat \<Rightarrow> (article \<times> string set) list" where
  "article_ngrams as ngram_size =
     map (\<lambda>article. (article, generate_ngrams (get article ''title'' []) ngram_size)) as"

fun compare_inner ::
  "rat \<Rightarrow> (article \<times> string set) list \<Rightarrow> nat \<Rightarrow> nat list \<Rightarrow> similar_pair list \<times> nat \<Rightarrow>
   error + similar_pair list \<times> nat" where
  \<comment> \<open>The inner loop, over the indices \<open>j\<close> still to visit; the state is
      \<open>(similar_pairs, compared)\<close>.\<close>
  "compare_inner thr an i [] st = Inr st"
| "compare_inner thr an i (j # js) (similar_pairs, compared) =
     (case calculate_jaccard_similarity (snd (an ! i)) (snd (an ! j)) of
        Inl e \<Rightarrow> Inl e
      | Inr sim \<Rightarrow>
          compare_inner thr an i js
            (if thr \<le> sim
             then similar_pairs @
                  [\<lparr>article1 = summarize (fst (an ! i)), article2 = summarize (fst (an ! j)),
                    similarity = round_ndigits sim 4\<rparr>]
             else similar_pairs,
             compared + 1))"

fun compare_outer ::
  "rat \<Rightarrow> (article \<times> string set) list \<Rightarrow> nat list \<Rightarrow> similar_pair list \<times> nat \<Rightarrow>
   error + similar_pair list \<times> nat" where
  "compare_outer thr an [] st = Inr st"
| "compare_outer thr an (i # is) st =
     (case compare_inner thr an i [i + 1 ..< length an] st of
        Inl e \<Rightarrow> Inl e
      | Inr st' \<Rightarrow> compare_outer thr an is st')"

definition compare_all :: "rat \<Rightarrow> article list \<Rightarrow> nat \<Rightarrow> error + similar_pair list \<times> nat" where
  \<comment> \<open>Both loops of \<open>find_similar_pairs\<close>, with the final value of \<open>compared\<close>.\<close>
  "compare_all thr as ngram_size =
     (let an = article_ngrams as ngram_size
      in compare_outer thr an [0 ..< length an] ([], 0))"

definition find_similar_pairs :: "nat \<Rightarrow> analyzer \<Rightarrow> error + similar_pair list \<times> analyzer" where
  "find_similar_pairs ngram_size s =
     (case compare_all (similarity_threshold s) (articles s) ngram_size of
        Inl e \<Rightarrow> Inl e
      | Inr (similar_pairs, compared) \<Rightarrow> Inr (similar_pairs, s\<lparr>duplicates := similar_pairs\<rparr>))"

subsection \<open>cluster\_by\_exact\_match\<close>

fun group_append ::
  "(string \<times> article list) list \<Rightarrow> string \<Rightarrow> article \<Rightarrow> (string \<times> article list) list" where
  \<comment> \<open>\<open>title_groups[normalized].append(article)\<close> on a \<open>defaultdict(list)\<close>, which keeps
      its keys in the order of their first insertion.\<close>
  "group_append [] k a = [(k, [a])]"
| "group_append ((k', g) # gs) k a =
     (if k' = k then (k', g @ [a]) # gs else (k', g) # group_append gs k a)"

definition title_groups :: "article list \<Rightarrow> (string \<times> article list) list" where
  "title_groups as =
     fold (\<lambda>article groups.
             let normalized = normalize_text (get article ''title'' [])
             in if normalized \<noteq> [] then group_append groups normalized article else groups)
          as []"

definition sort_largest_first :: "'a list list \<Rightarrow> 'a list list" where
  \<comment> \<open>\<open>clusters.sort(key=len, reverse=True)\<close>: a stable sort, equal sizes keep their
      order.\<close>
  "sort_largest_first cs = sort_key (\<lambda>c. - int (length c)) cs"

definition clusters_of :: "article list \<Rightarrow> article list list" where
  "clusters_of as =
     sort_largest_first (filter (\<lambda>g. 2 \<le> length g) (map snd (title_groups as)))"

definition cluster_by_exact_match :: "analyzer \<Rightarrow> article list list \<times> analyzer" where
  "cluster_by_exact_match s =
     (let cs = clusters_of (articles s) in (cs, s\<lparr>clusters := cs\<rparr>))"

subsection \<open>generate\_report, save\_results and analyze\<close>

record cluster_stats =
  num_clusters :: int
  total_articles_in_clusters :: int
  duplication_rate :: string
  largest_cluster_size :: int

record pair_stats =
  num_pairs :: int
  threshold :: rat

record uniqueness_stats =
  truly_unique_articles :: int
  uniqueness_rate :: string

record report =
  generated_at :: string
  input_directory :: string
  similarity_threshold_used :: rat
  total_articles_analyzed :: int
  exact_match_clusters :: cluster_stats
  similar_pairs :: pair_stats
  uniqueness_analysis :: uniqueness_stats

definition generate_report :: "string \<Rightarrow> analyzer \<Rightarrow> error + report" where
  \<comment> \<open>The first argument is the reading of \<open>datetime.now().isoformat()\<close>.\<close>
  "generate_report now s =
     (let total_articles = int (length (articles s));
          num_similar_pairs = int (length (duplicates s));
          num_clusters = int (length (clusters s));
          articles_in_clusters = (\<Sum>cluster \<leftarrow> clusters s. int (length cluster));
          unique_articles = total_articles - articles_in_clusters + num_clusters
      in case (if 0 < total_articles
               then map_sum id (\<lambda>q. float_mul q 100) (true_div articles_in_clusters total_articles)
               else Inr 0) of
           Inl e \<Rightarrow> Inl e
         | Inr dup_rate \<Rightarrow>
             (case (if 0 < total_articles
                    then map_sum id (\<lambda>q. format_2f (float_mul q 100) @ ''%'')
                           (true_div unique_articles total_articles)
                    else Inr ''0%'') of
                Inl e \<Rightarrow> Inl e
              | Inr uniqueness \<Rightarrow>
                  Inr \<lparr>generated_at = now,
                       input_directory = input_dir s,
                       similarity_threshold_used = similarity_threshold s,
                       total_articles_analyzed = total_articles,
                       exact_match_clusters =
                         \<lparr>num_clusters = num_clusters,
                          total_articles_in_clusters = articles_in_clusters,
                          duplication_rate = format_2f dup_rate @ ''%'',
                          largest_cluster_size =
                            (case clusters s of [] \<Rightarrow> 0 | c # _ \<Rightarrow> int (length c))\<rparr>,
                       similar_pairs =
                         \<lparr>num_pairs = num_similar_pairs, threshold = similarity_threshold s\<rparr>,
                       uniqueness_analysis =
                         \<lparr>truly_unique_articles = unique_articles,
                          uniqueness_rate = uniqueness\<rparr>\<rparr>))"

record cluster_entry =
  cluster_id :: nat
  size :: nat
  normalized_title :: string
  cluster_articles :: "summary list"

datatype metric = Metric string | Similar_Pairs_At_Least rat

datatype csv_value = Int_Value int | Str_Value string

record outputs =
  similarity_report_json :: report
  similar_pairs_json :: "similar_pair list option"
  duplicate_clusters_json :: "cluster_entry list option"
  similarity_summary_csv :: "(metric \<times> csv_value) list"

fun clusters_data :: "nat \<Rightarrow> article list list \<Rightarrow> error + cluster_entry list" where
  \<comment> \<open>The comprehension over \<open>enumerate(self.clusters[:100])\<close>, from index \<open>idx\<close> on;
      \<open>cluster[0]\<close> raises on an empty cluster.\<close>
  "clusters_data idx [] = Inr []"
| "clusters_data idx (cluster # rest) =
     (case cluster of
        [] \<Rightarrow> Inl IndexError
      | first # _ \<Rightarrow>
          (case clusters_data (idx + 1) rest of
             Inl e \<Rightarrow> Inl e
           | Inr entries \<Rightarrow>
               Inr (\<lparr>cluster_id = idx + 1, size = length cluster,
                     normalized_title = normalize_text (get first ''title'' []),
                     cluster_articles = map summarize cluster\<rparr> # entries)))"

definition save_results :: "string \<Rightarrow> analyzer \<Rightarrow> error + outputs" where
  \<comment> \<open>The files written, by name; \<open>None\<close> is a file that is not written. Where the
      source raises, the files it wrote before are not shown.\<close>
  "save_results now s =
     (case generate_report now s of
        Inl e \<Rightarrow> Inl e
      | Inr rep \<Rightarrow>
          (case (if clusters s \<noteq> [] then map_sum id Some (clusters_data 0 (take 100 (clusters s)))
                 else Inr None) of
             Inl e \<Rightarrow> Inl e
           | Inr cluster_file \<Rightarrow>
               Inr \<lparr>similarity_report_json = rep,
                    similar_pairs_json = (if duplicates s \<noteq> [] then Some (duplicates s) else None),
                    duplicate_clusters_json = cluster_file,
                    similarity_summary_csv =
                      [(Metric ''Metric'', Str_Value ''Value''),
                       (Metric ''Total Articles'', Int_Value (total_articles_analyzed rep)),
                       (Metric ''Exact Match Clusters'',
                        Int_Value (num_clusters (exact_match_clusters rep))),
                       (Metric ''Articles in Clusters'',
                        Int_Value (total_articles_in_clusters (exact_match_clusters rep))),
                       (Metric ''Duplication Rate'',
                        Str_Value (duplication_rate (exact_match_clusters rep))),
                       (Similar_Pairs_At_Least (similarity_threshold s),
                        Int_Value (num_pairs (similar_pairs rep))),
                       (Metric ''Truly Unique Articles'',
                        Int_Value (truly_unique_articles (uniqueness_analysis rep))),
                       (Metric ''Uniqueness Rate'',
                        Str_Value (uniqueness_rate (uniqueness_analysis rep)))]\<rparr>))"

definition max_articles_for_pairwise :: nat where
  "max_articles_for_pairwise = 10000"

record run =
  returned :: "report option"
  written :: "outputs option"
  final :: analyzer

definition analyze :: "article list option \<Rightarrow> string \<Rightarrow> string \<Rightarrow> analyzer \<Rightarrow> error + run" where
  \<comment> \<open>\<open>analyze\<close> on the file as read and the two clock readings, for the saved and for
      the returned report; \<open>returned = None\<close> is the empty dictionary.\<close>
  "analyze csv_file now1 now2 s =
     (case load_articles csv_file s of
        (False, s0) \<Rightarrow> Inr \<lparr>returned = None, written = None, final = s0\<rparr>
      | (True, s0) \<Rightarrow>
          (let s1 = snd (cluster_by_exact_match s0)
           in case (if length (articles s1) \<le> max_articles_for_pairwise
                    then map_sum id snd (find_similar_pairs 3 s1)
                    else Inr s1) of
                Inl e \<Rightarrow> Inl e
              | Inr s2 \<Rightarrow>
                  (case save_results now1 s2 of
                     Inl e \<Rightarrow> Inl e
                   | Inr out \<Rightarrow>
                       (case generate_report now2 s2 of
                          Inl e \<Rightarrow> Inl e
                        | Inr rep \<Rightarrow>
                            Inr \<lparr>returned = Some rep, written = Some out, final = s2\<rparr>))))"

subsection \<open>Notions used to state the properties\<close>

definition word_char :: "char \<Rightarrow> bool" where
  "word_char c \<longleftrightarrow> is_az c \<or> is_digit c"

definition wordlist :: "string list \<Rightarrow> bool" where
  \<comment> \<open>Non-empty words of lowercase ASCII letters and digits.\<close>
  "wordlist ws \<longleftrightarrow> list_all (\<lambda>w. w \<noteq> [] \<and> list_all word_char w) ws"

definition to_space :: "char \<Rightarrow> char" where
  \<comment> \<open>Every character that is not a lowercase ASCII letter, a digit or a space becomes
      a space.\<close>
  "to_space c = (if is_az c \<or> is_digit c \<or> c = CHR '' '' then c else CHR '' '')"

fun squeeze :: "string \<Rightarrow> string" where
  \<comment> \<open>Every run of whitespace becomes one space.\<close>
  "squeeze [] = []"
| "squeeze [a] = [if isspace a then CHR '' '' else a]"
| "squeeze (a # b # cs) =
     (if isspace a then (if isspace b then squeeze (b # cs) else CHR '' '' # squeeze (b # cs))
      else a # squeeze (b # cs))"

fun rstrip :: "string \<Rightarrow> string" where
  "rstrip [] = []"
| "rstrip (c # cs) = (if list_all isspace (c # cs) then [] else c # rstrip cs)"

definition strip :: "string \<Rightarrow> string" where
  \<comment> \<open>Whitespace trimmed at both ends.\<close>
  "strip text = dropWhile isspace (rstrip text)"

definition scheme_char :: "char \<Rightarrow> bool" where
  "scheme_char c \<longleftrightarrow> is_az c \<or> is_digit c \<or> c \<in> {CHR ''+'', CHR ''-'', CHR ''.''}"

definition scheme_url_at :: "string \<Rightarrow> bool" where
  \<comment> \<open>A URL of any scheme starts here: a letter, further scheme characters, \<open>://\<close> and
      at least one character that is not whitespace.\<close>
  "scheme_url_at text \<longleftrightarrow>
     (case text of
        [] \<Rightarrow> False
      | c # cs \<Rightarrow>
          is_az c \<and>
          (let rest = dropWhile scheme_char cs
           in take 3 rest = ''://'' \<and> (\<exists>x \<in> set (take 1 (drop 3 rest)). \<not> isspace x)))"

function remove_any_scheme_urls :: "string \<Rightarrow> string" where
  \<comment> \<open>URL removal as the specification words it, for every scheme.\<close>
  "remove_any_scheme_urls [] = []"
| "remove_any_scheme_urls (c # cs) =
     (if scheme_url_at (c # cs) then remove_any_scheme_urls (dropWhile (\<lambda>x. \<not> isspace x) cs)
      else c # remove_any_scheme_urls cs)"
  by pat_completeness auto
termination
  by (relation "measure length") (auto simp: le_imp_less_Suc length_dropWhile_le)

definition normalize_any_scheme :: "string \<Rightarrow> string" where
  \<comment> \<open>The four steps in the specification's words, URLs of every scheme removed.\<close>
  "normalize_any_scheme t = strip (squeeze (map to_space (remove_any_scheme_urls (lower t))))"

definition index_pairs :: "nat \<Rightarrow> (nat \<times> nat) list" where
  \<comment> \<open>The index pairs the two loops of \<open>find_similar_pairs\<close> visit, in this order.\<close>
  "index_pairs m = concat (map (\<lambda>i. map (Pair i) [i + 1 ..< m]) [0 ..< m])"

definition pair_similarity :: "(article \<times> string set) list \<Rightarrow> nat \<times> nat \<Rightarrow> rat" where
  \<comment> \<open>The value \<open>similarity\<close> has in the loop body at the index pair.\<close>
  "pair_similarity an p =
     projr (calculate_jaccard_similarity (snd (an ! fst p)) (snd (an ! snd p)))"

definition pair_record :: "(article \<times> string set) list \<Rightarrow> nat \<times> nat \<Rightarrow> similar_pair" where
  \<comment> \<open>The dictionary appended for a retained index pair.\<close>
  "pair_record an p =
     \<lparr>article1 = summarize (fst (an ! fst p)), article2 = summarize (fst (an ! snd p)),
      similarity = round_ndigits (pair_similarity an p) 4\<rparr>"

definition index_less :: "nat \<times> nat \<Rightarrow> nat \<times> nat \<Rightarrow> bool" where
  \<comment> \<open>Ascending \<open>(i, j)\<close> order.\<close>
  "index_less p q \<longleftrightarrow> fst p < fst q \<or> (fst p = fst q \<and> snd p < snd q)"

definition title_key :: "article \<Rightarrow> string" where
  \<comment> \<open>The normalised title of an article.\<close>
  "title_key article = normalize_text (get article ''title'' [])"

fun first_seen :: "'a list \<Rightarrow> 'a list" where
  \<comment> \<open>The distinct elements of a list, in the order of their first occurrence.\<close>
  "first_seen [] = []"
| "first_seen (x # xs) = x # filter (\<lambda>y. y \<noteq> x) (first_seen xs)"

definition cluster_keys :: "article list \<Rightarrow> string list" where
  \<comment> \<open>The non-empty normalised titles of a corpus, in first-seen order.\<close>
  "cluster_keys as = first_seen (filter (\<lambda>k. k \<noteq> []) (map title_key as))"

definition group_of :: "article list \<Rightarrow> string \<Rightarrow> article list" where
  \<comment> \<open>The articles with a given normalised title, in corpus order.\<close>
  "group_of as k = filter (\<lambda>a. title_key a = k) as"

definition percentage :: "int \<Rightarrow> int \<Rightarrow> string" where
  \<comment> \<open>The quotient of two integers as a percentage with two decimals, in the report's
      arithmetic: \<open>f"{(a / b * 100):.2f}%"\<close>.\<close>
  "percentage a b = format_2f (float_mul (to_double (of_int a / of_int b)) 100) @ ''%''"

section \<open>Properties of normalize\_text\<close>

lemma word_char_not_space: "word_char c \<Longrightarrow> \<not> isspace c"
  by (auto simp: word_char_def is_az_def is_digit_def isspace_def)

lemma lower_char_word: "word_char c \<or> isspace c \<Longrightarrow> lower_char c = c"
  by (auto simp: word_char_def is_az_def is_digit_def isspace_def lower_char_def Let_def)

lemma keep_char_word: "word_char c \<or> isspace c \<Longrightarrow> keep_char c = c"
  by (auto simp: keep_char_def word_char_def)

lemma keep_char_cases: "word_char (keep_char c) \<or> isspace (keep_char c)"
  by (auto simp: keep_char_def word_char_def isspace_def)

lemma url_at_colon: "url_at s \<Longrightarrow> CHR '':'' \<in> set s"
proof -
  assume "url_at s"
  then have "take 7 s = ''http://'' \<or> take 8 s = ''https://''"
    by (auto simp: url_at_def)
  then have "CHR '':'' \<in> set (take 7 s) \<or> CHR '':'' \<in> set (take 8 s)"
    by auto
  then show ?thesis
    by (auto dest: in_set_takeD)
qed

lemma remove_urls_id: "CHR '':'' \<notin> set s \<Longrightarrow> remove_urls s = s"
proof (induction s)
  case Nil
  show ?case by simp
next
  case (Cons c cs)
  then have "\<not> url_at (c # cs)"
    using url_at_colon by blast
  with Cons show ?case by simp
qed

lemma split_from_words:
  "list_all word_char w \<Longrightarrow> list_all (\<lambda>c. word_char c \<or> isspace c) s \<Longrightarrow>
   wordlist (split_from w s)"
proof (induction s arbitrary: w)
  case Nil
  then show ?case by (simp add: wordlist_def)
next
  case (Cons c cs)
  then show ?case
    by (auto simp: wordlist_def dest: word_char_not_space)
qed

lemma split_from_append:
  "list_all (\<lambda>c. \<not> isspace c) v \<Longrightarrow> split_from w (v @ s) = split_from (w @ v) s"
  by (induction v arbitrary: w) auto

lemma split_join: "wordlist ws \<Longrightarrow> split_from [] (join ws) = ws"
proof (induction ws rule: join.induct)
  case 1
  show ?case by simp
next
  case (2 w)
  then have "list_all (\<lambda>c. \<not> isspace c) w"
    by (auto simp: wordlist_def list_all_iff dest: word_char_not_space)
  then have "split_from [] (w @ []) = split_from ([] @ w) []"
    by (rule split_from_append)
  with 2 show ?case by (simp add: wordlist_def)
next
  case (3 w v ws)
  then have ns: "list_all (\<lambda>c. \<not> isspace c) w" and ne: "w \<noteq> []" and rest: "wordlist (v # ws)"
    by (auto simp: wordlist_def list_all_iff dest: word_char_not_space)
  have "split_from [] (w @ '' '' @ join (v # ws)) = split_from ([] @ w) ('' '' @ join (v # ws))"
    using ns by (rule split_from_append)
  also have "\<dots> = w # split_from [] (join (v # ws))"
    using ne by (simp add: isspace_def)
  finally show ?case
    using 3 rest by simp
qed

lemma join_chars: "wordlist ws \<Longrightarrow> list_all (\<lambda>c. word_char c \<or> isspace c) (join ws)"
  by (induction ws rule: join.induct) (auto simp: wordlist_def list_all_iff isspace_def)

lemma normalize_join: "wordlist ws \<Longrightarrow> normalize_text (Some (join ws)) = join ws"
proof -
  assume ws: "wordlist ws"
  let ?s = "join ws"
  have chars: "list_all (\<lambda>c. word_char c \<or> isspace c) ?s"
    using ws by (rule join_chars)
  have low: "lower ?s = ?s"
    unfolding lower_def using chars by (simp add: list_all_iff map_idI lower_char_word)
  have "CHR '':'' \<notin> set ?s"
    using chars by (auto simp: list_all_iff word_char_def is_az_def is_digit_def isspace_def)
  then have url: "remove_urls ?s = ?s"
    by (rule remove_urls_id)
  have keep: "map keep_char ?s = ?s"
    using chars by (simp add: list_all_iff map_idI keep_char_word)
  show ?thesis
    using ws by (simp add: normalize_text_def low url keep split_def split_join)
qed

lemma normalize_wordlist: "\<exists>ws. wordlist ws \<and> normalize_text t = join ws"
proof (cases t)
  case None
  have "wordlist []" by (simp add: wordlist_def)
  with None show ?thesis by (auto simp: normalize_text_def intro: exI [of _ "[]"])
next
  case (Some s)
  let ?u = "map keep_char (remove_urls (lower s))"
  have "list_all (\<lambda>c. word_char c \<or> isspace c) ?u"
    by (simp add: list_all_iff keep_char_cases)
  then have w: "wordlist (split ?u)"
    unfolding split_def by (intro split_from_words) simp_all
  have e: "wordlist []" by (simp add: wordlist_def)
  show ?thesis
  proof (cases "s = []")
    case True
    with Some e show ?thesis by (auto simp: normalize_text_def intro: exI [of _ "[]"])
  next
    case False
    with Some w show ?thesis by (auto simp: normalize_text_def)
  qed
qed

text \<open>
  Claim C4. Normalising twice is normalising once: for every title, absent or any string,
  \<open>normalize_text\<close> applied to its own result returns that result.
\<close>

theorem normalize_text_idempotent:
  "normalize_text (Some (normalize_text t)) = normalize_text t"
  using normalize_wordlist [of t] normalize_join by auto

theorem normalize_text_idempotent_witness:
  "normalize_text (Some ''See https://q2b.example/x?y=1 NOW: a  b!'') = ''see now a b'' \<and>
   normalize_text (Some ''see now a b'') = ''see now a b''"
proof -
  have v: "normalize_text (Some ''See https://q2b.example/x?y=1 NOW: a  b!'') = ''see now a b''"
    by code_simp
  show ?thesis
    using normalize_text_idempotent [of "Some ''See https://q2b.example/x?y=1 NOW: a  b!''"]
    by (simp add: v)
qed

lemma split_keep_char: "split_from w (map keep_char u) = split_from w (map to_space u)"
  by (induction u arbitrary: w) (auto simp: keep_char_def to_space_def isspace_def)

lemma split_from_nonempty: "w \<noteq> [] \<Longrightarrow> split_from w s \<noteq> []"
  by (induction s arbitrary: w) auto

lemma split_from_prepend:
  "w \<noteq> [] \<Longrightarrow> split_from (u @ w) s = (case split_from w s of [] \<Rightarrow> [] | x # xs \<Rightarrow> (u @ x) # xs)"
  by (induction s arbitrary: w) auto

lemma join_Cons_Cons: "join ((a # x) # xs) = a # join (x # xs)"
  by (cases xs) auto

lemma join_Cons: "join (x # xs) = (if xs = [] then x else x @ CHR '' '' # join xs)"
  by (cases xs) auto

lemma split_from_hd:
  "w \<noteq> [] \<Longrightarrow> list_all (\<lambda>c. \<not> isspace c) w \<Longrightarrow>
   \<exists>c r. join (split_from w s) = c # r \<and> \<not> isspace c"
proof (induction s arbitrary: w)
  case Nil
  then show ?case by (cases w) auto
next
  case (Cons a s)
  show ?case
  proof (cases "isspace a")
    case True
    with Cons.prems show ?thesis by (cases w) (auto simp: join_Cons)
  next
    case False
    with Cons.prems Cons.IH [of "w @ [a]"] show ?thesis by simp
  qed
qed

lemma join_split_hd: "join (split_from [] s) = [] \<or> \<not> isspace (hd (join (split_from [] s)))"
proof (induction s)
  case Nil
  show ?case by simp
next
  case (Cons a s)
  show ?case
  proof (cases "isspace a")
    case True
    with Cons show ?thesis by simp
  next
    case False
    then show ?thesis using split_from_hd [of "[a]" s] by auto
  qed
qed

lemma squeeze_hd: "\<not> isspace b \<Longrightarrow> squeeze (b # cs) = b # tl (squeeze (b # cs))"
  by (cases cs) auto

lemma rstrip_squeeze:
  "rstrip (squeeze s) =
     (if s \<noteq> [] \<and> isspace (hd s) \<and> split_from [] s \<noteq> [] then CHR '' '' # join (split_from [] s)
      else join (split_from [] s))"
proof (induction s rule: squeeze.induct)
  case 1
  show ?case by simp
next
  case (2 a)
  show ?case by (simp add: isspace_def)
next
  case (3 a b cs)
  show ?case
  proof (cases "isspace a")
    case a: True
    show ?thesis
    proof (cases "isspace b")
      case True
      with a 3 show ?thesis by simp
    next
      case False
      then have "squeeze (b # cs) = b # tl (squeeze (b # cs))"
        by (rule squeeze_hd)
      then obtain r where "squeeze (b # cs) = b # r"
        by blast
      then have "\<not> list_all isspace (squeeze (b # cs))"
        using False by simp
      moreover have "split_from [b] cs \<noteq> []"
        by (rule split_from_nonempty) simp
      ultimately show ?thesis
        using a False 3 by (simp add: isspace_def)
    qed
  next
    case a: False
    show ?thesis
    proof (cases "isspace b")
      case True
      with a 3 show ?thesis by (simp add: join_Cons)
    next
      case False
      have "split_from ([a] @ [b]) cs = (case split_from [b] cs of [] \<Rightarrow> [] | x # xs \<Rightarrow> ([a] @ x) # xs)"
        by (rule split_from_prepend) simp
      moreover obtain x xs where "split_from [b] cs = x # xs"
        using split_from_nonempty [of "[b]" cs] by (cases "split_from [b] cs") auto
      ultimately show ?thesis
        using a False 3 by (simp add: join_Cons_Cons)
    qed
  qed
qed

lemma join_split_strip: "join (split s) = strip (squeeze s)"
proof -
  have "dropWhile isspace (join (split_from [] s)) = join (split_from [] s)"
    using join_split_hd [of s] by (cases "join (split_from [] s)") auto
  then show ?thesis
    by (simp add: strip_def split_def rstrip_squeeze isspace_def)
qed


text \<open>
  Claim C5 (amended). \<open>normalize_text\<close> is the composition, in this order, of lowercasing,
  removal of every match of \<open>http://\<close> or \<open>https://\<close> followed by a non-empty run of
  non-whitespace (no other scheme is removed), replacement of every character that is not
  a lowercase ASCII letter, a digit or a space by a space, and collapsing of whitespace
  runs to single spaces with both ends trimmed; a missing title gives the empty string,
  and \<open>"Hello, World!  123"\<close> gives \<open>"hello world 123"\<close>.
\<close>

theorem normalize_text_steps:
  "normalize_text None = [] \<and>
   normalize_text (Some t) = strip (squeeze (map to_space (remove_urls (lower t)))) \<and>
   normalize_text (Some ''Hello, World!  123'') = ''hello world 123''"
proof -
  have "normalize_text (Some t) = strip (squeeze (map to_space (remove_urls (lower t))))"
  proof (cases "t = []")
    case True
    then show ?thesis by (simp add: normalize_text_def lower_def strip_def)
  next
    case False
    then have "normalize_text (Some t) = join (split (map to_space (remove_urls (lower t))))"
      by (simp add: normalize_text_def split_def split_keep_char)
    then show ?thesis by (simp add: join_split_strip)
  qed
  moreover have "normalize_text (Some ''Hello, World!  123'') = ''hello world 123''"
    by code_simp
  ultimately show ?thesis by (simp add: normalize_text_def)
qed

theorem normalize_text_steps_witness:
  "normalize_text (Some ''Q2B: visit HTTP://a.b/c  now'') =
     strip (squeeze (map to_space (remove_urls (lower ''Q2B: visit HTTP://a.b/c  now'')))) \<and>
   normalize_text (Some ''Q2B: visit HTTP://a.b/c  now'') = ''q2b visit now''"
proof -
  have "normalize_text (Some ''Q2B: visit HTTP://a.b/c  now'') = ''q2b visit now''"
    by code_simp
  then show ?thesis
    using normalize_text_steps [of "''Q2B: visit HTTP://a.b/c  now''"] by simp
qed

text \<open>
  The claim as stated fails: a URL of another scheme is not removed; its letters and
  digits stay in the normalised title.
\<close>

theorem normalize_text_other_scheme_counterexample:
  "normalize_text (Some ''ftp://x.org news'') = ''ftp x org news'' \<and>
   normalize_any_scheme ''ftp://x.org news'' = ''news''"
  by code_simp

section \<open>Properties of generate\_ngrams\<close>

lemma fold_insert_image: "fold (\<lambda>i S. insert (f i) S) is A = f ` set is \<union> A"
  by (induction "is" arbitrary: A) auto

lemma window_starts: "n \<le> m \<Longrightarrow> set [0 ..< m - n + 1] = {i. i + n \<le> m}"
  by auto

lemma slices_sublists:
  "(\<lambda>i. slice t i (i + n)) ` {i. i + n \<le> length t} = {g. sublist g t \<and> length g = n}"
proof (intro set_eqI iffI)
  fix g
  assume "g \<in> (\<lambda>i. slice t i (i + n)) ` {i. i + n \<le> length t}"
  then obtain i where i: "i + n \<le> length t" and g: "g = take n (drop i t)"
    by (auto simp: slice_def)
  have "t = take i t @ g @ drop n (drop i t)"
    unfolding g by (simp only: append_take_drop_id)
  then have "sublist g t"
    unfolding sublist_def by blast
  moreover have "length g = n"
    using i by (simp add: g)
  ultimately show "g \<in> {g. sublist g t \<and> length g = n}"
    by simp
next
  fix g
  assume "g \<in> {g. sublist g t \<and> length g = n}"
  then obtain ps ss where t: "t = ps @ g @ ss" and n: "length g = n"
    by (auto simp: sublist_def)
  have "slice t (length ps) (length ps + n) = g"
    by (simp add: slice_def t n)
  moreover have "length ps + n \<le> length t"
    by (simp add: t n)
  ultimately show "g \<in> (\<lambda>i. slice t i (i + n)) ` {i. i + n \<le> length t}"
    by blast
qed

lemma generate_ngrams_image:
  "generate_ngrams text n =
     (if length (normalize_text text) < n then {normalize_text text}
      else (\<lambda>i. slice (normalize_text text) i (i + n)) ` {i. i + n \<le> length (normalize_text text)})"
proof (cases "length (normalize_text text) < n")
  case True
  then show ?thesis by (simp add: generate_ngrams_def)
next
  case False
  then have "set [0 ..< length (normalize_text text) - n + 1] = {i. i + n \<le> length (normalize_text text)}"
    by (intro window_starts) simp
  with False show ?thesis
    by (simp only: generate_ngrams_def Let_def fold_insert_image if_False Un_empty_right)
qed

text \<open>
  Claim C3. \<open>generate_ngrams\<close> normalises its text first. When the normalised string is
  shorter than \<open>n\<close> the result is the set holding that one string (the empty string for a
  missing title, an empty one, or one that normalises to nothing); otherwise it is exactly
  the set of the contiguous substrings of length \<open>n\<close> of the normalised string, each once.
  This holds for every \<open>n\<close>, so for every \<open>n \<ge> 1\<close>.
\<close>

theorem generate_ngrams_sublists:
  "generate_ngrams text n =
     (if length (normalize_text text) < n then {normalize_text text}
      else {g. sublist g (normalize_text text) \<and> length g = n})"
  by (simp only: generate_ngrams_image slices_sublists)

theorem generate_ngrams_sublists_witness:
  "generate_ngrams (Some ''A-a a.a'') 3 = {g. sublist g ''a a a a'' \<and> length g = 3} \<and>
   generate_ngrams (Some ''A-a a.a'') 3 = {''a a'', '' a ''} \<and>
   generate_ngrams (Some ''!?'') 3 = {''''} \<and> generate_ngrams (Some ''Ab'') 3 = {''ab''}"
proof -
  have n: "normalize_text (Some ''A-a a.a'') = ''a a a a''"
    by code_simp
  have "generate_ngrams (Some ''A-a a.a'') 3 = {''a a'', '' a ''}"
    by code_simp
  moreover have "generate_ngrams (Some ''!?'') 3 = {''''}"
    by code_simp
  moreover have "generate_ngrams (Some ''Ab'') 3 = {''ab''}"
    by code_simp
  ultimately show ?thesis
    using generate_ngrams_sublists [of "Some ''A-a a.a''" 3] by (simp add: n)
qed

section \<open>Properties of the floating-point operations and of the Jaccard similarity\<close>

lemma to_double_one: "to_double 1 = 1"
  by code_simp

lemma round_half_even_nonneg: "0 \<le> x \<Longrightarrow> 0 \<le> round_half_even x"
  by (auto simp: round_half_even_def Let_def)

lemma round_half_even_le: "x \<le> of_int N \<Longrightarrow> round_half_even x \<le> N"
proof -
  assume x: "x \<le> of_int N"
  then have f: "\<lfloor>x\<rfloor> \<le> N"
    by (simp add: floor_le_iff) 
  show ?thesis
  proof (cases "\<lfloor>x\<rfloor> = N")
    case True
    then have "x - of_int \<lfloor>x\<rfloor> \<le> 0"
      using x by simp
    then show ?thesis
      using True by (simp add: round_half_even_def Let_def)
  next
    case False
    with f have "\<lfloor>x\<rfloor> + 1 \<le> N" by simp
    then show ?thesis
      by (auto simp: round_half_even_def Let_def)
  qed
qed

lemma bitlen_mono: "a \<le> b \<Longrightarrow> bitlen a \<le> bitlen b"
  by (simp add: bitlen_def floorlog_mono nat_mono)

lemma double_exponent_unit:
  assumes "0 < x" "x \<le> 1"
  shows "0 \<le> double_exponent x"
proof -
  obtain a b where q: "quotient_of x = (a, b)"
    by (cases "quotient_of x")
  then have b: "0 < b" and x: "x = of_int a / of_int b"
    by (auto simp: quotient_of_denom_pos quotient_of_div)
  with assms have "a \<le> b"
    by (simp add: pos_divide_le_eq)
  then have "bitlen a \<le> bitlen b"
    by (rule bitlen_mono)
  moreover have "\<bar>x\<bar> = x"
    using assms by simp
  ultimately show ?thesis
    using q by (simp add: double_exponent_def Let_def)
qed

lemma to_double_unit:
  assumes "0 \<le> x" "x \<le> 1"
  shows "0 \<le> to_double x \<and> to_double x \<le> 1"
proof (cases "x = 0")
  case True
  then show ?thesis by (simp add: to_double_def)
next
  case False
  with assms have pos: "0 < x" by simp
  define e where "e = double_exponent x"
  have e: "0 \<le> e"
    unfolding e_def using pos assms(2) by (rule double_exponent_unit)
  then have p: "pow2 e = of_int (2 ^ nat e)" and p0: "0 < pow2 e"
    by (simp_all add: pow2_def)
  have "x * pow2 e \<le> of_int (2 ^ nat e)"
    using assms(2) p0 by (simp add: p mult_le_cancel_right1)
  then have up: "round_half_even (x * pow2 e) \<le> 2 ^ nat e"
    by (rule round_half_even_le)
  have "0 \<le> x * pow2 e"
    using assms(1) p0 by simp
  then have lo: "0 \<le> round_half_even (x * pow2 e)"
    by (rule round_half_even_nonneg)
  have "to_double x = of_int (round_half_even (x * pow2 e)) / pow2 e"
    using False by (simp add: to_double_def e_def Let_def)
  moreover have "of_int (round_half_even (x * pow2 e)) / pow2 e \<le> 1"
    using up p0 by (simp add: p pos_divide_le_eq flip: of_int_power)
  moreover have "0 \<le> of_int (round_half_even (x * pow2 e)) / pow2 e"
    using lo p0 by simp
  ultimately show ?thesis by simp
qed

lemma pow2_powi: "pow2 e = 2 powi e"
  by (simp add: pow2_def power_int_def field_simps)

lemma pow2_pos: "0 < pow2 e"
  by (simp add: pow2_powi)

lemma pow2_add: "pow2 (i + j) = pow2 i * pow2 j"
  by (simp add: pow2_powi power_int_add)

lemma bitlen_pow2_bounds:
  assumes "0 < a"
  shows "pow2 (bitlen a - 1) \<le> of_int a \<and> of_int a < pow2 (bitlen a)"
proof -
  have b: "2 ^ nat (bitlen a - 1) \<le> a \<and> a < 2 ^ nat (bitlen a)"
    using assms by (rule bitlen_bounds)
  have pos: "1 \<le> bitlen a"
    using assms by (simp add: bitlen_alt_def)
  have "pow2 (bitlen a - 1) = of_int (2 ^ nat (bitlen a - 1))"
    using pos by (simp add: pow2_def)
  moreover have "pow2 (bitlen a) = of_int (2 ^ nat (bitlen a))"
    using pos by (simp add: pow2_def)
  ultimately show ?thesis
    using b by (metis of_int_le_iff of_int_less_iff)
qed

text \<open>The scaling is the one a double has, and rounding is within half a unit in the last place.\<close>

lemma double_exponent_bounds:
  assumes "x \<noteq> 0"
  shows "2 ^ 52 \<le> \<bar>x\<bar> * pow2 (double_exponent x) \<and> \<bar>x\<bar> * pow2 (double_exponent x) < 2 ^ 53"
proof -
  define y where "y = \<bar>x\<bar>"
  have y: "0 < y"
    using assms by (simp add: y_def)
  obtain a b where q: "quotient_of y = (a, b)"
    by (cases "quotient_of y")
  then have b: "0 < b" and yab: "y = of_int a / of_int b"
    by (auto simp: quotient_of_denom_pos quotient_of_div)
  with y have a: "0 < a"
    by (simp add: zero_less_divide_iff)
  define d where "d = bitlen b - bitlen a + 52"
  have ba: "pow2 (bitlen a - 1) \<le> of_int a" "of_int a < pow2 (bitlen a)"
    using bitlen_pow2_bounds [OF a] by simp_all
  have bb: "pow2 (bitlen b - 1) \<le> of_int b" "of_int b < pow2 (bitlen b)"
    using bitlen_pow2_bounds [OF b] by simp_all
  have b0: "(0 :: rat) < of_int b"
    using b by simp
  have lo: "pow2 51 < y * pow2 d"
  proof -
    have "pow2 51 * of_int b < pow2 51 * pow2 (bitlen b)"
      using bb(2) pow2_pos by simp
    also have "\<dots> = pow2 (bitlen a - 1) * pow2 d"
      unfolding d_def pow2_add [symmetric] by (simp add: algebra_simps)
    also have "\<dots> \<le> of_int a * pow2 d"
      using ba(1) pow2_pos [of d] by simp
    finally have "pow2 51 * of_int b < of_int a * pow2 d" .
    then show ?thesis
      using b0 by (simp add: yab field_simps)
  qed
  have hi: "y * pow2 d < pow2 53"
  proof -
    have "of_int a * pow2 d < pow2 (bitlen a) * pow2 d"
      using ba(2) pow2_pos [of d] by simp
    also have "\<dots> = pow2 53 * pow2 (bitlen b - 1)"
      unfolding d_def pow2_add [symmetric] by (simp add: algebra_simps)
    also have "\<dots> \<le> pow2 53 * of_int b"
      using bb(1) pow2_pos [of 53] by simp
    finally have "of_int a * pow2 d < pow2 53 * of_int b" .
    then show ?thesis
      using b0 by (simp add: yab field_simps)
  qed
  have p51: "pow2 51 = 2 ^ 51" and p53: "pow2 53 = 2 ^ 53"
    by (simp_all add: pow2_def)
  have e: "double_exponent x = (if y * pow2 d < 2 ^ 52 then d + 1 else d)"
    using q by (simp add: double_exponent_def y_def d_def Let_def)
  show ?thesis
  proof (cases "y * pow2 d < 2 ^ 52")
    case True
    have "pow2 1 = 2"
      by (simp add: pow2_def)
    then have eq: "y * pow2 (d + 1) = 2 * (y * pow2 d)"
      by (simp add: pow2_add)
    from e True have ed: "double_exponent x = d + 1"
      by simp
    have "2 ^ 52 \<le> 2 * (y * pow2 d) \<and> 2 * (y * pow2 d) < 2 ^ 53"
      using True lo by (simp add: p51)
    then have "2 ^ 52 \<le> y * pow2 (d + 1) \<and> y * pow2 (d + 1) < 2 ^ 53"
      by (simp only: eq)
    then show ?thesis
      unfolding ed y_def .
  next
    case False
    then show ?thesis
      using hi e by (simp add: p53 flip: y_def)
  qed
qed

lemma round_half_even_error: "\<bar>of_int (round_half_even y) - y\<bar> \<le> 1 / 2"
proof -
  have "of_int \<lfloor>y\<rfloor> \<le> y" "y < of_int \<lfloor>y\<rfloor> + 1"
    by linarith+
  then show ?thesis
    by (auto simp: round_half_even_def Let_def abs_le_iff)
qed

lemma to_double_error: "\<bar>to_double x - x\<bar> \<le> \<bar>x\<bar> / 2 ^ 53"
proof (cases "x = 0")
  case True
  then show ?thesis by (simp add: to_double_def)
next
  case False
  define p where "p = pow2 (double_exponent x)"
  have p: "0 < p"
    by (simp add: p_def pow2_pos)
  have s: "2 ^ 52 \<le> \<bar>x\<bar> * p"
    using double_exponent_bounds [OF False] by (simp add: p_def)
  have "to_double x - x = (of_int (round_half_even (x * p)) - x * p) / p"
    using False p by (simp add: to_double_def p_def Let_def field_simps)
  then have "\<bar>to_double x - x\<bar> = \<bar>of_int (round_half_even (x * p)) - x * p\<bar> / p"
    using p by (simp add: abs_divide)
  also have "\<dots> \<le> (1 / 2) / p"
    using p by (intro divide_right_mono round_half_even_error) simp
  also have "\<dots> \<le> \<bar>x\<bar> / 2 ^ 53"
  proof -
    have "2 ^ 53 \<le> 2 * (\<bar>x\<bar> * p)"
      using s by (simp add: mult.commute)
    then show ?thesis
      using p by (simp add: field_simps)
  qed
  finally show ?thesis .
qed

lemma jaccard_unit:
  "\<exists>x. calculate_jaccard_similarity A B = Inr x \<and> 0 \<le> x \<and> x \<le> 1"
proof (cases "A = {} \<or> B = {} \<or> card (A \<union> B) = 0")
  case True
  then show ?thesis by (auto simp: calculate_jaccard_similarity_def Let_def)
next
  case False
  then have u: "0 < card (A \<union> B)"
    by simp
  then have fin: "finite (A \<union> B)"
    by (simp add: card_gt_0_iff)
  have "card (A \<inter> B) \<le> card (A \<union> B)"
    using fin by (intro card_mono) auto
  then have "(of_nat (card (A \<inter> B)) :: rat) / of_nat (card (A \<union> B)) \<le> 1"
    using u by (simp add: pos_divide_le_eq)
  moreover have "0 \<le> (of_nat (card (A \<inter> B)) :: rat) / of_nat (card (A \<union> B))"
    by simp
  ultimately have "0 \<le> to_double (of_nat (card (A \<inter> B)) / of_nat (card (A \<union> B))) \<and>
      to_double (of_nat (card (A \<inter> B)) / of_nat (card (A \<union> B))) \<le> 1"
    by (intro to_double_unit)
  with False show ?thesis
    by (simp add: calculate_jaccard_similarity_def Let_def true_div_def)
qed

lemma jaccard_same:
  assumes "finite A" "A \<noteq> {}"
  shows "calculate_jaccard_similarity A A = Inr 1"
proof -
  have "card A \<noteq> 0"
    using assms by simp
  then show ?thesis
    using assms by (simp add: calculate_jaccard_similarity_def true_div_def to_double_one)
qed

lemma generate_ngrams_finite: "finite (generate_ngrams text n)"
  by (simp add: generate_ngrams_def Let_def fold_insert_image)

lemma generate_ngrams_nonempty: "generate_ngrams text n \<noteq> {}"
  by (simp add: generate_ngrams_def Let_def fold_insert_image)

section \<open>Properties of find\_similar\_pairs\<close>

lemma jaccard_Inr:
  "calculate_jaccard_similarity A B = Inr (projr (calculate_jaccard_similarity A B))"
  using jaccard_unit [of A B] by auto

lemma compare_inner_eq:
  "compare_inner thr an i js (sp, c) =
     Inr (sp @ map (pair_record an) (filter (\<lambda>p. thr \<le> pair_similarity an p) (map (Pair i) js)),
          c + length js)"
proof (induction js arbitrary: sp c)
  case Nil
  show ?case by simp
next
  case (Cons j js)
  have "calculate_jaccard_similarity (snd (an ! i)) (snd (an ! j)) = Inr (pair_similarity an (i, j))"
    unfolding pair_similarity_def fst_conv snd_conv by (rule jaccard_Inr)
  then show ?case
    by (simp add: Cons.IH pair_record_def)
qed

lemma compare_outer_eq:
  "compare_outer thr an is (sp, c) =
     Inr (sp @ map (pair_record an)
                 (filter (\<lambda>p. thr \<le> pair_similarity an p)
                    (concat (map (\<lambda>i. map (Pair i) [i + 1 ..< length an]) is))),
          c + length (concat (map (\<lambda>i. map (Pair i) [i + 1 ..< length an]) is)))"
proof (induction "is" arbitrary: sp c)
  case Nil
  show ?case by simp
next
  case (Cons i "is")
  show ?case
    by (simp add: compare_inner_eq Cons.IH del: upt_Suc)
qed

lemma compare_all_eq:
  "compare_all thr as n =
     Inr (map (pair_record (article_ngrams as n))
            (filter (\<lambda>p. thr \<le> pair_similarity (article_ngrams as n) p) (index_pairs (length as))),
          length (index_pairs (length as)))"
  by (simp add: compare_all_def Let_def compare_outer_eq index_pairs_def article_ngrams_def
      del: upt_Suc)

lemma length_index_pairs: "length (index_pairs m) = m * (m - 1) div 2"
proof -
  have "length (index_pairs m) = (\<Sum>i\<leftarrow>[0 ..< m]. m - Suc i)"
    by (simp add: index_pairs_def length_concat comp_def del: upt_Suc)
  also have "\<dots> = (\<Sum>i<m. m - Suc i)"
    by (simp add: interv_sum_list_conv_sum_set_nat atLeast0LessThan del: upt_Suc)
  also have "\<dots> = (\<Sum>i<m. i)"
    by (rule sum.nat_diff_reindex)
  also have "\<dots> = m * (m - 1) div 2"
  proof -
    have "2 * (\<Sum>i<m. i) = m * (m - 1)"
    proof (induction m)
      case 0
      show ?case by simp
    next
      case (Suc k)
      then show ?case by (cases k) (simp_all add: algebra_simps)
    qed
    then show ?thesis
      by (metis nonzero_mult_div_cancel_left zero_neq_numeral)
  qed
  finally show ?thesis .
qed

lemma set_index_pairs: "set (index_pairs m) = {(i, j). i < j \<and> j < m}"
  by (fastforce simp: index_pairs_def)

lemma sorted_rows:
  "sorted_wrt (<) is \<Longrightarrow>
   sorted_wrt index_less (concat (map (\<lambda>i. map (Pair i) [i + 1 ..< m]) is))"
proof (induction "is")
  case Nil
  show ?case by simp
next
  case (Cons i "is")
  have a: "sorted_wrt index_less (map (Pair i) [i + 1 ..< m])"
    by (simp add: sorted_wrt_map index_less_def del: upt_Suc)
  have b: "sorted_wrt index_less (concat (map (\<lambda>i. map (Pair i) [i + 1 ..< m]) is))"
    using Cons by simp
  have c: "\<forall>x \<in> set (map (Pair i) [i + 1 ..< m]).
             \<forall>y \<in> set (concat (map (\<lambda>i. map (Pair i) [i + 1 ..< m]) is)). index_less x y"
    using Cons.prems by (auto simp: index_less_def)
  show ?case
    using a b c by (simp add: sorted_wrt_append del: upt_Suc)
qed

lemma sorted_index_pairs: "sorted_wrt index_less (index_pairs m)"
  unfolding index_pairs_def by (rule sorted_rows) simp

lemma sorted_wrt_distinct: "sorted_wrt R xs \<Longrightarrow> (\<forall>x. \<not> R x x) \<Longrightarrow> distinct xs"
  by (induction xs) auto

lemma distinct_index_pairs: "distinct (index_pairs m)"
  using sorted_index_pairs by (rule sorted_wrt_distinct) (simp add: index_less_def)

lemma pair_similarity_unit: "0 \<le> pair_similarity an p \<and> pair_similarity an p \<le> 1"
  unfolding pair_similarity_def
  using jaccard_unit [of "snd (an ! fst p)" "snd (an ! snd p)"] by auto

lemma find_similar_pairs_eq:
  "find_similar_pairs n s =
     Inr (map (pair_record (article_ngrams (articles s) n))
            (filter (\<lambda>p. similarity_threshold s \<le> pair_similarity (article_ngrams (articles s) n) p)
               (index_pairs (length (articles s)))),
          s\<lparr>duplicates :=
              map (pair_record (article_ngrams (articles s) n))
                (filter (\<lambda>p. similarity_threshold s \<le> pair_similarity (article_ngrams (articles s) n) p)
                   (index_pairs (length (articles s))))\<rparr>)"
  by (simp add: find_similar_pairs_def compare_all_eq)

text \<open>
  Claim C2. The two loops compare every index pair \<open>(i, j)\<close> with \<open>i < j\<close> below the corpus
  size exactly once, \<open>m (m - 1) / 2\<close> comparisons in all (the final value of
  \<open>compared\<close>), in ascending \<open>(i, j)\<close> order; the returned list holds, in that order, the
  records of exactly the index pairs whose similarity is at least the threshold; and no
  index pair is visited in both orientations.
\<close>

theorem find_similar_pairs_every_pair_once:
  "compare_all thr as n =
     Inr (map (pair_record (article_ngrams as n))
            (filter (\<lambda>p. thr \<le> pair_similarity (article_ngrams as n) p) (index_pairs (length as))),
          length as * (length as - 1) div 2) \<and>
   (\<forall>s. map_sum id fst (find_similar_pairs n s) =
        map_sum id fst (compare_all (similarity_threshold s) (articles s) n)) \<and>
   set (index_pairs m) = {(i, j). i < j \<and> j < m} \<and>
   distinct (index_pairs m) \<and>
   sorted_wrt index_less (index_pairs m) \<and>
   (\<forall>p \<in> set (index_pairs m). (snd p, fst p) \<notin> set (index_pairs m))"
proof -
  have "\<forall>p \<in> set (index_pairs m). (snd p, fst p) \<notin> set (index_pairs m)"
    by (auto simp: set_index_pairs)
  moreover have "\<forall>s. map_sum id fst (find_similar_pairs n s) =
        map_sum id fst (compare_all (similarity_threshold s) (articles s) n)"
    by (simp add: find_similar_pairs_eq compare_all_eq)
  ultimately show ?thesis
    using compare_all_eq [of thr as n] length_index_pairs [of "length as"] set_index_pairs [of m]
      distinct_index_pairs [of m] sorted_index_pairs [of m]
    by simp
qed

theorem find_similar_pairs_every_pair_once_witness:
  "compare_all (17 / 20)
     [[(''title'', Some ''Foo Bar'')], [(''title'', Some ''foo  bar!'')], [(''title'', Some ''Baz'')]] 3 =
     Inr ([\<lparr>article1 = \<lparr>title = Some ''Foo Bar'', url = Some [], date = Some []\<rparr>,
            article2 = \<lparr>title = Some ''foo  bar!'', url = Some [], date = Some []\<rparr>,
            similarity = 1\<rparr>], 3) \<and>
   index_pairs 3 = [(0, 1), (0, 2), (1, 2)] \<and>
   set (index_pairs 3) = {(i, j). i < j \<and> j < 3} \<and>
   (1, 0) \<notin> set (index_pairs 3)"
proof -
  have "compare_all (17 / 20)
     [[(''title'', Some ''Foo Bar'')], [(''title'', Some ''foo  bar!'')], [(''title'', Some ''Baz'')]] 3 =
     Inr ([\<lparr>article1 = \<lparr>title = Some ''Foo Bar'', url = Some [], date = Some []\<rparr>,
            article2 = \<lparr>title = Some ''foo  bar!'', url = Some [], date = Some []\<rparr>,
            similarity = 1\<rparr>], 3)"
    by code_simp
  moreover have "index_pairs 3 = [(0, 1), (0, 2), (1, 2)]"
    by code_simp
  ultimately show ?thesis
    using find_similar_pairs_every_pair_once
      [of "17 / 20"
          "[[(''title'', Some ''Foo Bar'')], [(''title'', Some ''foo  bar!'')], [(''title'', Some ''Baz'')]]"
          3 3]
    by simp
qed

text \<open>
  Claim C10. \<open>find_similar_pairs\<close> returns for every threshold, without error. With a
  threshold of at most 0 every one of the \<open>m (m - 1) / 2\<close> index pairs is emitted, since
  every similarity is at least 0; with a threshold above 1 none is, since every
  similarity is at most 1.
\<close>

theorem find_similar_pairs_threshold_extremes:
  "(\<exists>ps. find_similar_pairs n s = Inr (ps, s\<lparr>duplicates := ps\<rparr>)) \<and>
   (similarity_threshold s \<le> 0 \<longrightarrow>
      map_sum id fst (find_similar_pairs n s) =
        Inr (map (pair_record (article_ngrams (articles s) n)) (index_pairs (length (articles s)))) \<and>
      map_sum id (length \<circ> fst) (find_similar_pairs n s) =
        Inr (length (articles s) * (length (articles s) - 1) div 2)) \<and>
   (1 < similarity_threshold s \<longrightarrow> map_sum id fst (find_similar_pairs n s) = Inr [])"
proof (intro conjI impI)
  show "\<exists>ps. find_similar_pairs n s = Inr (ps, s\<lparr>duplicates := ps\<rparr>)"
    by (simp add: find_similar_pairs_eq)
next
  assume "similarity_threshold s \<le> 0"
  then have all: "filter (\<lambda>p. similarity_threshold s \<le> pair_similarity (article_ngrams (articles s) n) p)
               (index_pairs (length (articles s))) = index_pairs (length (articles s))"
    using pair_similarity_unit [of "article_ngrams (articles s) n"]
    by (intro filter_True) (auto intro: order_trans)
  show "map_sum id fst (find_similar_pairs n s) =
        Inr (map (pair_record (article_ngrams (articles s) n)) (index_pairs (length (articles s))))"
    by (simp add: find_similar_pairs_eq all)
  show "map_sum id (length \<circ> fst) (find_similar_pairs n s) =
        Inr (length (articles s) * (length (articles s) - 1) div 2)"
    by (simp add: find_similar_pairs_eq all length_index_pairs)
next
  assume "1 < similarity_threshold s"
  then have "filter (\<lambda>p. similarity_threshold s \<le> pair_similarity (article_ngrams (articles s) n) p)
               (index_pairs (length (articles s))) = []"
    using pair_similarity_unit [of "article_ngrams (articles s) n"]
    by (intro filter_False) (auto simp: not_le intro: le_less_trans)
  then show "map_sum id fst (find_similar_pairs n s) = Inr []"
    by (simp add: find_similar_pairs_eq)
qed

theorem find_similar_pairs_threshold_extremes_witness:
  "(0 :: rat) \<le> 0 \<and>
   map_sum id fst
     (find_similar_pairs 3
        (init ''d'' 0\<lparr>articles := [[(''title'', Some ''abc'')], [(''title'', Some ''xyz'')]]\<rparr>)) =
     Inr [\<lparr>article1 = \<lparr>title = Some ''abc'', url = Some [], date = Some []\<rparr>,
           article2 = \<lparr>title = Some ''xyz'', url = Some [], date = Some []\<rparr>,
           similarity = 0\<rparr>] \<and>
   (1 :: rat) < 3 / 2 \<and>
   map_sum id fst
     (find_similar_pairs 3
        (init ''d'' (3 / 2)\<lparr>articles := [[(''title'', Some ''a'')], [(''title'', Some ''a'')]]\<rparr>)) =
     Inr []"
proof -
  have "map_sum id fst
     (find_similar_pairs 3
        (init ''d'' 0\<lparr>articles := [[(''title'', Some ''abc'')], [(''title'', Some ''xyz'')]]\<rparr>)) =
     Inr [\<lparr>article1 = \<lparr>title = Some ''abc'', url = Some [], date = Some []\<rparr>,
           article2 = \<lparr>title = Some ''xyz'', url = Some [], date = Some []\<rparr>,
           similarity = 0\<rparr>]"
    by code_simp
  moreover have "map_sum id fst
     (find_similar_pairs 3
        (init ''d'' (3 / 2)\<lparr>articles := [[(''title'', Some ''a'')], [(''title'', Some ''a'')]]\<rparr>)) =
     Inr []"
    using find_similar_pairs_threshold_extremes
      [of 3 "init ''d'' (3 / 2)\<lparr>articles := [[(''title'', Some ''a'')], [(''title'', Some ''a'')]]\<rparr>"]
    by (simp add: init_def)
  ultimately show ?thesis
    using find_similar_pairs_threshold_extremes
      [of 3 "init ''d'' 0\<lparr>articles := [[(''title'', Some ''abc'')], [(''title'', Some ''xyz'')]]\<rparr>"]
    by simp
qed

section \<open>Properties of cluster\_by\_exact\_match\<close>

lemma set_first_seen: "set (first_seen xs) = set xs"
  by (induction xs) auto

lemma distinct_first_seen: "distinct (first_seen xs)"
  by (induction xs) (auto simp: set_first_seen)

lemma first_seen_snoc:
  "first_seen (xs @ [x]) = (if x \<in> set xs then first_seen xs else first_seen xs @ [x])"
  by (induction xs) auto

lemma group_append_map:
  "distinct ks \<Longrightarrow>
   group_append (map (\<lambda>k. (k, f k)) ks) k0 a =
     (if k0 \<in> set ks then map (\<lambda>k. (k, if k = k0 then f k @ [a] else f k)) ks
      else map (\<lambda>k. (k, f k)) ks @ [(k0, [a])])"
  by (induction ks) auto

lemma set_cluster_keys: "set (cluster_keys as) = {k. k \<noteq> [] \<and> k \<in> title_key ` set as}"
  by (auto simp: cluster_keys_def set_first_seen)

lemma title_groups_snoc:
  "title_groups (as @ [a]) =
     (if title_key a \<noteq> [] then group_append (title_groups as) (title_key a) a
      else title_groups as)"
  by (simp add: title_groups_def title_key_def Let_def)

lemma title_groups_eq: "title_groups as = map (\<lambda>k. (k, group_of as k)) (cluster_keys as)"
proof (induction as rule: rev_induct)
  case Nil
  show ?case by (simp add: title_groups_def cluster_keys_def)
next
  case (snoc a as)
  show ?case
  proof (cases "title_key a = []")
    case True
    then have "cluster_keys (as @ [a]) = cluster_keys as"
      by (simp add: cluster_keys_def)
    moreover have "\<forall>k \<in> set (cluster_keys as). group_of (as @ [a]) k = group_of as k"
      using True by (auto simp: set_cluster_keys group_of_def)
    ultimately show ?thesis
      using True snoc by (simp add: title_groups_snoc)
  next
    case False
    let ?k = "title_key a"
    have d: "distinct (cluster_keys as)"
      by (simp add: cluster_keys_def distinct_first_seen)
    have step: "title_groups (as @ [a]) =
        group_append (map (\<lambda>k. (k, group_of as k)) (cluster_keys as)) ?k a"
      using False snoc by (simp add: title_groups_snoc)
    show ?thesis
    proof (cases "?k \<in> set (cluster_keys as)")
      case True
      then have keys: "cluster_keys (as @ [a]) = cluster_keys as"
        using False by (simp add: cluster_keys_def first_seen_snoc set_first_seen)
      have "map (\<lambda>k. (k, if k = ?k then group_of as k @ [a] else group_of as k)) (cluster_keys as) =
            map (\<lambda>k. (k, group_of (as @ [a]) k)) (cluster_keys as)"
        by (auto simp: group_of_def)
      then show ?thesis
        using True d by (simp add: step group_append_map keys)
    next
      case notin: False
      then have keys: "cluster_keys (as @ [a]) = cluster_keys as @ [?k]"
        using False by (simp add: cluster_keys_def first_seen_snoc set_first_seen)
      have "?k \<notin> title_key ` set as"
        using notin False by (simp add: set_cluster_keys)
      then have new: "group_of (as @ [a]) ?k = [a]"
        by (auto simp: group_of_def filter_empty_conv) (metis imageI)
      have old: "map (\<lambda>k. (k, group_of (as @ [a]) k)) (cluster_keys as) =
            map (\<lambda>k. (k, group_of as k)) (cluster_keys as)"
        using notin by (auto simp: group_of_def)
      show ?thesis
        using notin d by (simp add: step group_append_map keys new old)
    qed
  qed
qed

lemma clusters_of_eq:
  "clusters_of as =
     sort_largest_first (filter (\<lambda>g. 2 \<le> length g) (map (group_of as) (cluster_keys as)))"
  by (simp add: clusters_of_def title_groups_eq comp_def)

lemma set_clusters_of:
  "set (clusters_of as) = {group_of as k | k. k \<noteq> [] \<and> 2 \<le> length (group_of as k)}"
proof -
  have "k \<in> title_key ` set as" if "2 \<le> length (group_of as k)" for k
  proof -
    from that have "group_of as k \<noteq> []" by auto
    then show ?thesis
      by (auto simp: group_of_def filter_empty_conv)
  qed
  then show ?thesis
    by (auto simp: clusters_of_eq sort_largest_first_def set_cluster_keys)
qed

lemma group_of_inj: "inj_on (group_of as) (set (cluster_keys as))"
proof (rule inj_onI)
  fix k k'
  assume k: "k \<in> set (cluster_keys as)" and eq: "group_of as k = group_of as k'"
  then obtain a where "a \<in> set as" "title_key a = k"
    by (auto simp: set_cluster_keys)
  then have "a \<in> set (group_of as k)"
    by (simp add: group_of_def)
  with eq have "a \<in> set (group_of as k')"
    by simp
  then have "title_key a = k'"
    by (simp add: group_of_def)
  with \<open>title_key a = k\<close> show "k = k'"
    by simp
qed

lemma distinct_clusters_of: "distinct (clusters_of as)"
proof -
  have "distinct (cluster_keys as)"
    by (simp add: cluster_keys_def distinct_first_seen)
  then have "distinct (map (group_of as) (cluster_keys as))"
    by (simp add: distinct_map group_of_inj)
  then show ?thesis
    by (simp add: clusters_of_eq sort_largest_first_def)
qed

lemma sorted_clusters_of: "sorted_wrt (\<lambda>c d. length d \<le> length c) (clusters_of as)"
proof -
  have "sorted (map (\<lambda>c. - int (length c)) (clusters_of as))"
    by (simp add: clusters_of_def sort_largest_first_def)
  then show ?thesis
    by (simp add: sorted_map)
qed

lemma stable_clusters_of:
  "filter (\<lambda>c. length c = n) (clusters_of as) =
     (if 2 \<le> n then filter (\<lambda>c. length c = n) (map (group_of as) (cluster_keys as)) else [])"
proof -
  have "filter (\<lambda>c. length c = n) (clusters_of as) =
        filter (\<lambda>c. - int (length c) = - int n) (clusters_of as)"
    by simp
  also have "\<dots> = filter (\<lambda>c. - int (length c) = - int n)
                    (filter (\<lambda>g. 2 \<le> length g) (map (group_of as) (cluster_keys as)))"
    unfolding clusters_of_eq sort_largest_first_def by (rule sort_key_stable)
  also have "\<dots> = (if 2 \<le> n then filter (\<lambda>c. length c = n) (map (group_of as) (cluster_keys as)) else [])"
    by (auto simp: filter_empty_conv intro: filter_cong)
  finally show ?thesis .
qed

lemma filter_two:
  "i < j \<Longrightarrow> j < length xs \<Longrightarrow> P (xs ! i) \<Longrightarrow> P (xs ! j) \<Longrightarrow> 2 \<le> length (filter P xs)"
proof -
  assume a: "i < j" "j < length xs" "P (xs ! i)" "P (xs ! j)"
  then have xs: "xs = take j xs @ xs ! j # drop (Suc j) xs"
    by (simp add: id_take_nth_drop)
  have "xs ! i \<in> set (take j xs)"
    using a by (auto simp: in_set_conv_nth intro!: exI [of _ i])
  then have "filter P (take j xs) \<noteq> []"
    using a by (auto simp: filter_empty_conv)
  then have "1 \<le> length (filter P (take j xs))"
    by (cases "filter P (take j xs)") auto
  moreover have "length (filter P xs) =
      length (filter P (take j xs)) + length (filter P (xs ! j # drop (Suc j) xs))"
    by (subst xs) simp
  ultimately show ?thesis
    using a by simp
qed

text \<open>
  Claim C6. The clusters returned are exactly the groups of articles that share a
  non-empty normalised title and have at least two members, each once; a cluster lists
  its members in corpus order; the clusters are in descending order of size, and the
  clusters of one size are in the order in which their normalised titles first occur in
  the corpus.
\<close>

theorem cluster_by_exact_match_groups:
  "cluster_by_exact_match s = (clusters_of (articles s), s\<lparr>clusters := clusters_of (articles s)\<rparr>) \<and>
   set (clusters_of as) = {group_of as k | k. k \<noteq> [] \<and> 2 \<le> length (group_of as k)} \<and>
   distinct (clusters_of as) \<and>
   sorted_wrt (\<lambda>c d. length d \<le> length c) (clusters_of as) \<and>
   (\<forall>n. filter (\<lambda>c. length c = n) (clusters_of as) =
      (if 2 \<le> n then filter (\<lambda>c. length c = n) (map (group_of as) (cluster_keys as)) else []))"
  using set_clusters_of [of as] distinct_clusters_of [of as] sorted_clusters_of [of as]
    stable_clusters_of [of _ as]
  by (simp add: cluster_by_exact_match_def Let_def)

theorem cluster_by_exact_match_groups_witness:
  "clusters_of
     [[(''title'', Some ''A'')], [(''title'', Some ''B'')], [(''title'', Some ''c'')],
      [(''title'', Some ''a!'')], [(''title'', Some '' b'')], [(''title'', Some ''?'')],
      [(''title'', Some ''d'')], [(''title'', Some ''D'')], [(''title'', Some ''d.'')]] =
     [[[(''title'', Some ''d'')], [(''title'', Some ''D'')], [(''title'', Some ''d.'')]],
      [[(''title'', Some ''A'')], [(''title'', Some ''a!'')]],
      [[(''title'', Some ''B'')], [(''title'', Some '' b'')]]] \<and>
   cluster_keys
     [[(''title'', Some ''A'')], [(''title'', Some ''B'')], [(''title'', Some ''c'')],
      [(''title'', Some ''a!'')], [(''title'', Some '' b'')], [(''title'', Some ''?'')],
      [(''title'', Some ''d'')], [(''title'', Some ''D'')], [(''title'', Some ''d.'')]] =
     [''a'', ''b'', ''c'', ''d''] \<and>
   distinct
     (clusters_of
        [[(''title'', Some ''A'')], [(''title'', Some ''B'')], [(''title'', Some ''c'')],
         [(''title'', Some ''a!'')], [(''title'', Some '' b'')], [(''title'', Some ''?'')],
         [(''title'', Some ''d'')], [(''title'', Some ''D'')], [(''title'', Some ''d.'')]])"
proof -
  have "clusters_of
     [[(''title'', Some ''A'')], [(''title'', Some ''B'')], [(''title'', Some ''c'')],
      [(''title'', Some ''a!'')], [(''title'', Some '' b'')], [(''title'', Some ''?'')],
      [(''title'', Some ''d'')], [(''title'', Some ''D'')], [(''title'', Some ''d.'')]] =
     [[[(''title'', Some ''d'')], [(''title'', Some ''D'')], [(''title'', Some ''d.'')]],
      [[(''title'', Some ''A'')], [(''title'', Some ''a!'')]],
      [[(''title'', Some ''B'')], [(''title'', Some '' b'')]]]"
    by code_simp
  moreover have "cluster_keys
     [[(''title'', Some ''A'')], [(''title'', Some ''B'')], [(''title'', Some ''c'')],
      [(''title'', Some ''a!'')], [(''title'', Some '' b'')], [(''title'', Some ''?'')],
      [(''title'', Some ''d'')], [(''title'', Some ''D'')], [(''title'', Some ''d.'')]] =
     [''a'', ''b'', ''c'', ''d'']"
    by code_simp
  moreover have "distinct
     (clusters_of
        [[(''title'', Some ''A'')], [(''title'', Some ''B'')], [(''title'', Some ''c'')],
         [(''title'', Some ''a!'')], [(''title'', Some '' b'')], [(''title'', Some ''?'')],
         [(''title'', Some ''d'')], [(''title'', Some ''D'')], [(''title'', Some ''d.'')]])"
    using cluster_by_exact_match_groups by blast
  ultimately show ?thesis
    by (simp only: simp_thms)
qed

lemma members_have_key:
  "c \<in> set (clusters_of as) \<Longrightarrow> a \<in> set c \<Longrightarrow> title_key a \<noteq> []"
  by (auto simp: set_clusters_of group_of_def)

lemma generate_ngrams_cong:
  "normalize_text t = normalize_text u \<Longrightarrow> generate_ngrams t n = generate_ngrams u n"
  by (simp add: generate_ngrams_def)

lemma same_key_similarity:
  assumes "i < length as" "j < length as" "title_key (as ! i) = title_key (as ! j)"
  shows "pair_similarity (article_ngrams as n) (i, j) = 1"
proof -
  have "generate_ngrams (get (as ! i) ''title'' []) n = generate_ngrams (get (as ! j) ''title'' []) n"
    using assms(3) unfolding title_key_def by (rule generate_ngrams_cong)
  moreover have "calculate_jaccard_similarity (generate_ngrams (get (as ! j) ''title'' []) n)
      (generate_ngrams (get (as ! j) ''title'' []) n) = Inr 1"
    by (intro jaccard_same generate_ngrams_finite generate_ngrams_nonempty)
  ultimately show ?thesis
    using assms(1,2) by (simp add: pair_similarity_def article_ngrams_def)
qed

text \<open>
  Claim C1 (amended). Two articles of the corpus whose titles have the same normalisation
  are compared with similarity exactly 1, at every n-gram size, also when both titles
  normalise to the empty string. When the common normalised title is not empty, both
  are members of one cluster; when it is empty, they are members of no cluster.
\<close>

theorem identical_titles_similarity_and_cluster:
  assumes "i < j" and "j < length as" and "title_key (as ! i) = title_key (as ! j)"
  shows "pair_similarity (article_ngrams as n) (i, j) = 1 \<and>
    (title_key (as ! i) \<noteq> [] \<longrightarrow>
       (\<exists>c \<in> set (clusters_of as). as ! i \<in> set c \<and> as ! j \<in> set c)) \<and>
    (title_key (as ! i) = [] \<longrightarrow>
       (\<forall>c \<in> set (clusters_of as). as ! i \<notin> set c \<and> as ! j \<notin> set c))"
proof (intro conjI impI)
  show "pair_similarity (article_ngrams as n) (i, j) = 1"
    using assms by (intro same_key_similarity) simp_all
next
  assume ne: "title_key (as ! i) \<noteq> []"
  let ?k = "title_key (as ! i)"
  have "2 \<le> length (group_of as ?k)"
    unfolding group_of_def using assms by (intro filter_two [of i j]) simp_all
  then have "group_of as ?k \<in> set (clusters_of as)"
    using ne by (auto simp: set_clusters_of)
  moreover have "as ! i \<in> set (group_of as ?k)" "as ! j \<in> set (group_of as ?k)"
    using assms by (simp_all add: group_of_def)
  ultimately show "\<exists>c \<in> set (clusters_of as). as ! i \<in> set c \<and> as ! j \<in> set c"
    by blast
next
  assume "title_key (as ! i) = []"
  then show "\<forall>c \<in> set (clusters_of as). as ! i \<notin> set c \<and> as ! j \<notin> set c"
    using assms(3) members_have_key by metis
qed

theorem identical_titles_similarity_and_cluster_witness:
  "(0 :: nat) < 1 \<and>
   1 < length [[(''title'', Some ''Foo Bar'')], [(''title'', Some ''foo  bar!'')], [(''title'', Some ''Baz'')]] \<and>
   title_key ([[(''title'', Some ''Foo Bar'')], [(''title'', Some ''foo  bar!'')], [(''title'', Some ''Baz'')]] ! 0) =
     ''foo bar'' \<and>
   title_key ([[(''title'', Some ''Foo Bar'')], [(''title'', Some ''foo  bar!'')], [(''title'', Some ''Baz'')]] ! 1) =
     ''foo bar'' \<and>
   pair_similarity
     (article_ngrams [[(''title'', Some ''Foo Bar'')], [(''title'', Some ''foo  bar!'')], [(''title'', Some ''Baz'')]] 3)
     (0, 1) = 1 \<and>
   clusters_of [[(''title'', Some ''Foo Bar'')], [(''title'', Some ''foo  bar!'')], [(''title'', Some ''Baz'')]] =
     [[[(''title'', Some ''Foo Bar'')], [(''title'', Some ''foo  bar!'')]]]"
proof -
  have k0: "title_key [(''title'', Some ''Foo Bar'')] = ''foo bar''"
    by code_simp
  have k1: "title_key [(''title'', Some ''foo  bar!'')] = ''foo bar''"
    by code_simp
  have c: "clusters_of [[(''title'', Some ''Foo Bar'')], [(''title'', Some ''foo  bar!'')], [(''title'', Some ''Baz'')]] =
     [[[(''title'', Some ''Foo Bar'')], [(''title'', Some ''foo  bar!'')]]]"
    by code_simp
  show ?thesis
    using identical_titles_similarity_and_cluster
      [of 0 1 "[[(''title'', Some ''Foo Bar'')], [(''title'', Some ''foo  bar!'')], [(''title'', Some ''Baz'')]]" 3]
    by (simp add: k0 k1 c)
qed

text \<open>
  The claim as stated fails for titles that normalise to the empty string: the two
  articles are compared with similarity 1, and no cluster is formed.
\<close>

theorem empty_titles_not_clustered_counterexample:
  "title_key [(''title'', Some '''')] = title_key [(''title'', Some ''?!'')] \<and>
   compare_all 1 [[(''title'', Some '''')], [(''title'', Some ''?!'')]] 3 =
     Inr ([\<lparr>article1 = \<lparr>title = Some '''', url = Some [], date = Some []\<rparr>,
            article2 = \<lparr>title = Some ''?!'', url = Some [], date = Some []\<rparr>,
            similarity = 1\<rparr>], 1) \<and>
   clusters_of [[(''title'', Some '''')], [(''title'', Some ''?!'')]] = []"
  by code_simp

section \<open>Properties of load\_articles, generate\_report and analyze\<close>

text \<open>
  Claim C9 (amended). \<open>load_articles\<close> keeps every row of the file, in file order: rows
  that share a URL are all kept and none overwrites another, so the loaded collection
  has unique \<open>url\<close> values exactly when the rows of the file have. Without the file the
  analyzer is unchanged and the result is \<open>False\<close>.
\<close>

theorem load_articles_keeps_rows:
  "load_articles (Some rows) s = (True, s\<lparr>articles := rows\<rparr>) \<and>
   load_articles None s = (False, s) \<and>
   distinct (map (\<lambda>a. get a ''url'' []) (articles (snd (load_articles (Some rows) s)))) =
     distinct (map (\<lambda>a. get a ''url'' []) rows)"
  by (simp add: load_articles_def)

theorem load_articles_keeps_rows_witness:
  "load_articles (Some [[(''url'', Some ''u1'')], [(''url'', Some ''u2'')]]) (init ''d'' (17 / 20)) =
     (True, init ''d'' (17 / 20)\<lparr>articles := [[(''url'', Some ''u1'')], [(''url'', Some ''u2'')]]\<rparr>) \<and>
   distinct (map (\<lambda>a. get a ''url'' []) [[(''url'', Some ''u1'')], [(''url'', Some ''u2'')]])"
proof -
  have "distinct (map (\<lambda>a. get a ''url'' []) [[(''url'', Some ''u1'')], [(''url'', Some ''u2'')]])"
    by (simp add: get_def)
  then show ?thesis
    using load_articles_keeps_rows
      [of "[[(''url'', Some ''u1'')], [(''url'', Some ''u2'')]]" "init ''d'' (17 / 20)"]
    by simp
qed

text \<open>
  The claim as stated fails: two rows with one URL are both loaded, the earlier one
  first.
\<close>

theorem load_articles_duplicate_url_counterexample:
  "articles (snd (load_articles
      (Some [[(''url'', Some ''u''), (''title'', Some ''first'')],
             [(''url'', Some ''u''), (''title'', Some ''second'')]])
      (init ''d'' (17 / 20)))) =
     [[(''url'', Some ''u''), (''title'', Some ''first'')],
      [(''url'', Some ''u''), (''title'', Some ''second'')]] \<and>
   \<not> distinct (map (\<lambda>a. get a ''url'' [])
      (articles (snd (load_articles
         (Some [[(''url'', Some ''u''), (''title'', Some ''first'')],
                [(''url'', Some ''u''), (''title'', Some ''second'')]])
         (init ''d'' (17 / 20))))))"
  by (simp add: load_articles_def get_def)

text \<open>
  Claim C7. \<open>generate_report\<close> always returns a report, never an arithmetic fault. In it
  the articles in clusters are the sum of the cluster sizes, the unique articles are
  the total minus the articles in clusters plus the number of clusters, and the two
  rates are the quotients of articles in clusters and of unique articles by the total,
  as percentages with two decimals. With no articles the duplication rate is \<open>0.00%\<close>
  and the uniqueness rate is \<open>0%\<close>. The figures depend on the articles, clusters and
  pairs only; clock reading, directory and threshold are passed through.
\<close>

theorem generate_report_formulas:
  "\<exists>rep. generate_report now s = Inr rep \<and>
     generated_at rep = now \<and> input_directory rep = input_dir s \<and>
     similarity_threshold_used rep = similarity_threshold s \<and>
     threshold (similar_pairs rep) = similarity_threshold s \<and>
     num_pairs (similar_pairs rep) = int (length (duplicates s)) \<and>
     total_articles_analyzed rep = int (length (articles s)) \<and>
     num_clusters (exact_match_clusters rep) = int (length (clusters s)) \<and>
     total_articles_in_clusters (exact_match_clusters rep) = (\<Sum>c \<leftarrow> clusters s. int (length c)) \<and>
     largest_cluster_size (exact_match_clusters rep) =
       (if clusters s = [] then 0 else int (length (hd (clusters s)))) \<and>
     truly_unique_articles (uniqueness_analysis rep) =
       int (length (articles s)) - (\<Sum>c \<leftarrow> clusters s. int (length c)) + int (length (clusters s)) \<and>
     duplication_rate (exact_match_clusters rep) =
       (if articles s = [] then ''0.00%''
        else percentage (\<Sum>c \<leftarrow> clusters s. int (length c)) (int (length (articles s)))) \<and>
     uniqueness_rate (uniqueness_analysis rep) =
       (if articles s = [] then ''0%''
        else percentage
               (int (length (articles s)) - (\<Sum>c \<leftarrow> clusters s. int (length c)) + int (length (clusters s)))
               (int (length (articles s))))"
proof (cases "articles s = []")
  case True
  have "format_2f 0 = ''0.00''"
    by code_simp
  with True show ?thesis
    by (simp add: generate_report_def Let_def split: list.split)
next
  case False
  then show ?thesis
    by (simp add: generate_report_def Let_def true_div_def percentage_def split: list.split)
qed

theorem generate_report_formulas_witness:
  "(\<exists>rep. generate_report ''2024-01-01T00:00:00''
       \<lparr>input_dir = ''d'', similarity_threshold = 17 / 20,
        articles = [[(''title'', Some ''A'')], [(''title'', Some ''a'')], [(''title'', Some ''B'')]],
        duplicates = [],
        clusters = [[[(''title'', Some ''A'')], [(''title'', Some ''a'')]]]\<rparr> = Inr rep \<and>
      total_articles_analyzed rep = 3 \<and>
      num_clusters (exact_match_clusters rep) = 1 \<and>
      total_articles_in_clusters (exact_match_clusters rep) = 2 \<and>
      duplication_rate (exact_match_clusters rep) = ''66.67%'' \<and>
      truly_unique_articles (uniqueness_analysis rep) = 2 \<and>
      uniqueness_rate (uniqueness_analysis rep) = ''66.67%'') \<and>
   (\<exists>rep. generate_report ''2024-01-01T00:00:00'' (init ''d'' (17 / 20)) = Inr rep \<and>
      duplication_rate (exact_match_clusters rep) = ''0.00%'' \<and>
      uniqueness_rate (uniqueness_analysis rep) = ''0%'')"
proof -
  have p: "percentage 2 3 = ''66.67%''"
    by code_simp
  have "\<exists>rep. generate_report ''2024-01-01T00:00:00''
       \<lparr>input_dir = ''d'', similarity_threshold = 17 / 20,
        articles = [[(''title'', Some ''A'')], [(''title'', Some ''a'')], [(''title'', Some ''B'')]],
        duplicates = [],
        clusters = [[[(''title'', Some ''A'')], [(''title'', Some ''a'')]]]\<rparr> = Inr rep \<and>
      total_articles_analyzed rep = 3 \<and>
      num_clusters (exact_match_clusters rep) = 1 \<and>
      total_articles_in_clusters (exact_match_clusters rep) = 2 \<and>
      duplication_rate (exact_match_clusters rep) = ''66.67%'' \<and>
      truly_unique_articles (uniqueness_analysis rep) = 2 \<and>
      uniqueness_rate (uniqueness_analysis rep) = ''66.67%''"
    using generate_report_formulas [of "''2024-01-01T00:00:00''"
       "\<lparr>input_dir = ''d'', similarity_threshold = 17 / 20,
        articles = [[(''title'', Some ''A'')], [(''title'', Some ''a'')], [(''title'', Some ''B'')]],
        duplicates = [],
        clusters = [[[(''title'', Some ''A'')], [(''title'', Some ''a'')]]]\<rparr>"]
    by (simp add: p, blast)
  moreover have "\<exists>rep. generate_report ''2024-01-01T00:00:00'' (init ''d'' (17 / 20)) = Inr rep \<and>
      duplication_rate (exact_match_clusters rep) = ''0.00%'' \<and>
      uniqueness_rate (uniqueness_analysis rep) = ''0%''"
    using generate_report_formulas [of "''2024-01-01T00:00:00''" "init ''d'' (17 / 20)"]
    by (auto simp: init_def)
  ultimately show ?thesis
    by (simp only: simp_thms)
qed

lemma generate_report_total: "\<exists>rep. generate_report now s = Inr rep"
  by (cases "articles s = []") (simp_all add: generate_report_def Let_def true_div_def)

lemma generate_report_num_pairs:
  "generate_report now s = Inr rep \<Longrightarrow> num_pairs (similar_pairs rep) = int (length (duplicates s))"
  by (cases "articles s = []") (auto simp: generate_report_def Let_def true_div_def)

lemma clusters_data_total:
  "\<forall>c \<in> set cs. c \<noteq> [] \<Longrightarrow> \<exists>entries. clusters_data idx cs = Inr entries"
proof (induction cs arbitrary: idx)
  case Nil
  show ?case by simp
next
  case (Cons c cs)
  then obtain a as where c: "c = a # as"
    by (cases c) auto
  from Cons obtain entries where "clusters_data (idx + 1) cs = Inr entries"
    by fastforce
  then show ?case
    by (simp add: c)
qed

lemma save_results_total:
  assumes "\<forall>c \<in> set (clusters s). c \<noteq> []"
  shows "\<exists>out. save_results now s = Inr out \<and>
           similar_pairs_json out = (if duplicates s = [] then None else Some (duplicates s)) \<and>
           num_pairs (similar_pairs (similarity_report_json out)) = int (length (duplicates s))"
proof -
  obtain rep where rep: "generate_report now s = Inr rep"
    using generate_report_total by blast
  have "\<forall>c \<in> set (take 100 (clusters s)). c \<noteq> []"
    using assms by (auto dest: in_set_takeD)
  then obtain entries where "clusters_data 0 (take 100 (clusters s)) = Inr entries"
    using clusters_data_total by blast
  then show ?thesis
    using rep generate_report_num_pairs [OF rep] by (simp add: save_results_def)
qed

lemma clusters_of_nonempty: "\<forall>c \<in> set (clusters_of as). c \<noteq> []"
  by (auto simp: set_clusters_of)

text \<open>
  Claim C8. \<open>analyze\<close> on a corpus that was loaded always returns. The clusters of the
  final analyzer are the exact-match clusters of the corpus, whatever its size. With at
  most 10000 articles the final analyzer is the one \<open>find_similar_pairs\<close> (n-grams of
  size 3) leaves; with more, it is the analyzer as clustering left it: the pairwise
  matcher is not run, and for a fresh analyzer no similar pair is held, reported or
  written.
\<close>

theorem analyze_pairwise_cutoff:
  "\<exists>r. analyze (Some rows) now1 now2 s = Inr r \<and>
     articles (final r) = rows \<and>
     clusters (final r) = clusters_of rows \<and>
     (if length rows \<le> 10000
      then map_sum id snd (find_similar_pairs 3 (s\<lparr>articles := rows, clusters := clusters_of rows\<rparr>)) =
             Inr (final r)
      else final r = s\<lparr>articles := rows, clusters := clusters_of rows\<rparr> \<and>
           duplicates (final r) = duplicates s \<and>
           (\<exists>out rep. written r = Some out \<and> returned r = Some rep \<and>
              num_pairs (similar_pairs rep) = int (length (duplicates s)) \<and>
              similar_pairs_json out = (if duplicates s = [] then None else Some (duplicates s))))"
proof -
  let ?s1 = "s\<lparr>articles := rows, clusters := clusters_of rows\<rparr>"
  have s1: "snd (cluster_by_exact_match (s\<lparr>articles := rows\<rparr>)) = ?s1"
    by (simp add: cluster_by_exact_match_def Let_def)
  show ?thesis
  proof (cases "length rows \<le> 10000")
    case True
    obtain ps where f: "find_similar_pairs 3 ?s1 = Inr (ps, ?s1\<lparr>duplicates := ps\<rparr>)"
      by (simp add: find_similar_pairs_eq)
    let ?s2 = "?s1\<lparr>duplicates := ps\<rparr>"
    have "\<forall>c \<in> set (clusters ?s2). c \<noteq> []"
      using clusters_of_nonempty by simp
    then obtain out where out: "save_results now1 ?s2 = Inr out"
      using save_results_total by blast
    obtain rep where rep: "generate_report now2 ?s2 = Inr rep"
      using generate_report_total by blast
    have "analyze (Some rows) now1 now2 s = Inr \<lparr>returned = Some rep, written = Some out, final = ?s2\<rparr>"
      using True by (simp add: analyze_def load_articles_def s1 max_articles_for_pairwise_def f out rep)
    then show ?thesis
      using True f by simp
  next
    case False
    have "\<forall>c \<in> set (clusters ?s1). c \<noteq> []"
      using clusters_of_nonempty by simp
    then obtain out where out: "save_results now1 ?s1 = Inr out"
      and sp: "similar_pairs_json out = (if duplicates ?s1 = [] then None else Some (duplicates ?s1))"
      using save_results_total [of ?s1 now1] by blast
    obtain rep where rep: "generate_report now2 ?s1 = Inr rep"
      using generate_report_total by blast
    have "analyze (Some rows) now1 now2 s = Inr \<lparr>returned = Some rep, written = Some out, final = ?s1\<rparr>"
      using False by (simp add: analyze_def load_articles_def s1 max_articles_for_pairwise_def out rep)
    then show ?thesis
      using False sp generate_report_num_pairs [OF rep] by simp
  qed
qed

theorem analyze_pairwise_cutoff_witness:
  "(\<exists>r. analyze (Some (replicate 10001 [(''title'', Some ''a'')])) ''t1'' ''t2'' (init ''d'' (17 / 20)) = Inr r \<and>
      clusters (final r) = clusters_of (replicate 10001 [(''title'', Some ''a'')]) \<and>
      duplicates (final r) = [] \<and>
      (\<exists>out rep. written r = Some out \<and> returned r = Some rep \<and>
         num_pairs (similar_pairs rep) = 0 \<and> similar_pairs_json out = None)) \<and>
   (\<exists>r. analyze (Some [[(''title'', Some ''a'')], [(''title'', Some ''A'')]]) ''t1'' ''t2''
          (init ''d'' (17 / 20)) = Inr r \<and>
      clusters (final r) = [[[(''title'', Some ''a'')], [(''title'', Some ''A'')]]] \<and>
      duplicates (final r) =
        [\<lparr>article1 = \<lparr>title = Some ''a'', url = Some [], date = Some []\<rparr>,
          article2 = \<lparr>title = Some ''A'', url = Some [], date = Some []\<rparr>,
          similarity = 1\<rparr>])"
proof -
  have "\<exists>r. analyze (Some (replicate 10001 [(''title'', Some ''a'')])) ''t1'' ''t2'' (init ''d'' (17 / 20)) = Inr r \<and>
      clusters (final r) = clusters_of (replicate 10001 [(''title'', Some ''a'')]) \<and>
      duplicates (final r) = [] \<and>
      (\<exists>out rep. written r = Some out \<and> returned r = Some rep \<and>
         num_pairs (similar_pairs rep) = 0 \<and> similar_pairs_json out = None)"
    using analyze_pairwise_cutoff
      [of "replicate 10001 [(''title'', Some ''a'')]" "''t1''" "''t2''" "init ''d'' (17 / 20)"]
    by (simp add: init_def, blast)
  moreover have "\<exists>r. analyze (Some [[(''title'', Some ''a'')], [(''title'', Some ''A'')]]) ''t1'' ''t2''
          (init ''d'' (17 / 20)) = Inr r \<and>
      clusters (final r) = [[[(''title'', Some ''a'')], [(''title'', Some ''A'')]]] \<and>
      duplicates (final r) =
        [\<lparr>article1 = \<lparr>title = Some ''a'', url = Some [], date = Some []\<rparr>,
          article2 = \<lparr>title = Some ''A'', url = Some [], date = Some []\<rparr>,
          similarity = 1\<rparr>]"
  proof -
    have c: "clusters_of [[(''title'', Some ''a'')], [(''title'', Some ''A'')]] =
        [[[(''title'', Some ''a'')], [(''title'', Some ''A'')]]]"
      by code_simp
    have f: "map_sum id (duplicates \<circ> snd)
        (find_similar_pairs 3
          (init ''d'' (17 / 20)
             \<lparr>articles := [[(''title'', Some ''a'')], [(''title'', Some ''A'')]],
              clusters := [[[(''title'', Some ''a'')], [(''title'', Some ''A'')]]]\<rparr>)) =
        Inr [\<lparr>article1 = \<lparr>title = Some ''a'', url = Some [], date = Some []\<rparr>,
              article2 = \<lparr>title = Some ''A'', url = Some [], date = Some []\<rparr>,
              similarity = 1\<rparr>]"
      by code_simp
    obtain r where r: "analyze (Some [[(''title'', Some ''a'')], [(''title'', Some ''A'')]]) ''t1'' ''t2''
          (init ''d'' (17 / 20)) = Inr r"
      and cl: "clusters (final r) = clusters_of [[(''title'', Some ''a'')], [(''title'', Some ''A'')]]"
      and fs: "map_sum id snd (find_similar_pairs 3
          (init ''d'' (17 / 20)
             \<lparr>articles := [[(''title'', Some ''a'')], [(''title'', Some ''A'')]],
              clusters := clusters_of [[(''title'', Some ''a'')], [(''title'', Some ''A'')]]\<rparr>)) =
        Inr (final r)"
      using analyze_pairwise_cutoff
        [of "[[(''title'', Some ''a'')], [(''title'', Some ''A'')]]" "''t1''" "''t2''" "init ''d'' (17 / 20)"]
      by auto
    from fs f have "duplicates (final r) =
        [\<lparr>article1 = \<lparr>title = Some ''a'', url = Some [], date = Some []\<rparr>,
          article2 = \<lparr>title = Some ''A'', url = Some [], date = Some []\<rparr>,
          similarity = 1\<rparr>]"
      unfolding c by (cases "find_similar_pairs 3
          (init ''d'' (17 / 20)
             \<lparr>articles := [[(''title'', Some ''a'')], [(''title'', Some ''A'')]],
              clusters := [[[(''title'', Some ''a'')], [(''title'', Some ''A'')]]]\<rparr>)") auto
    with r cl c show ?thesis
      by simp
  qed
  ultimately show ?thesis
    by (simp only: simp_thms)
qed

end
